theory Spec2Isabelle
  imports Complex_Main "HOL-Library.Sublist"
begin

section \<open>Strings\<close>

text \<open>
  JavaScript strings are modelled as \<^typ>\<open>string\<close>, read as the UTF-8 encoding of the text.
  The only string operations of the program are comparisons with literal text, substring
  tests and the character class \<^verbatim>\<open>[^<]\<close>; since \<^verbatim>\<open><\<close> is ASCII and UTF-8 is
  self-synchronising, these agree on the encoded text with what JavaScript computes on
  UTF-16 code units. Accented letters of the source's literals are written as their two
  UTF-8 bytes.
\<close>

definition e_acute :: string where
  "e_acute = [CHR 0xC3, CHR 0xA9]"

definition e_circumflex :: string where
  "e_circumflex = [CHR 0xC3, CHR 0xAA]"

definition i_acute :: string where
  "i_acute = [CHR 0xC3, CHR 0xAD]"

text \<open>\<^verbatim>\<open>s.startsWith(p)\<close> and \<^verbatim>\<open>s.includes(t)\<close>.\<close>

definition startsWith :: "string \<Rightarrow> string \<Rightarrow> bool" where
  "startsWith s p = prefix p s"

fun includes_str :: "string \<Rightarrow> string \<Rightarrow> bool" where
  "includes_str [] t = (t = [])"
| "includes_str (c # cs) t = (startsWith (c # cs) t \<or> includes_str cs t)"

section \<open>GeoJSON features\<close>

text \<open>
  The feature collection that \<^verbatim>\<open>kml(kmlDoc)\<close> returns: every feature has a geometry
  (possibly \<^verbatim>\<open>null\<close>) with a type and coordinates, and a property bag (\<^verbatim>\<open>null\<close> in the
  GeoJSON type) of which the program reads \<^verbatim>\<open>name\<close>, \<^verbatim>\<open>description\<close> and \<^verbatim>\<open>styleUrl\<close>.
\<close>

record geometry =
  geom_type :: string
  geom_coordinates :: "real list"

record properties =
  prop_name :: "string option"
  prop_description :: "string option"
  prop_styleUrl :: "string option"

record feature =
  feat_geometry :: "geometry option"
  feat_properties :: "properties option"

subsection \<open>Point feature filter (page.tsx, line 118)\<close>

text \<open>\<^verbatim>\<open>feature.geometry?.type === 'Point'\<close>\<close>

definition isPoint :: "feature \<Rightarrow> bool" where
  "isPoint f = (case feat_geometry f of None \<Rightarrow> False | Some g \<Rightarrow> geom_type g = ''Point'')"

text \<open>\<^verbatim>\<open>geojson.features.filter(...)\<close>: the array is walked in order and the features that
  pass the test are collected.\<close>

fun pointFeatures :: "feature list \<Rightarrow> feature list" where
  "pointFeatures [] = []"
| "pointFeatures (f # fs) = (if isPoint f then f # pointFeatures fs else pointFeatures fs)"

subsection \<open>Feature annotator (page.tsx, lines 134-151)\<close>

text \<open>
  The four patterns have the shape \<^verbatim>\<open>/<td>LABEL<\/td><td>([^<]+)<\/td>/\<close>. A match that
  starts at the head of \<open>s\<close> needs the literal opening, then the longest non-empty run of
  characters other than \<^verbatim>\<open><\<close> (a shorter run would be followed by a character that is not
  the \<^verbatim>\<open><\<close> of the closing tag), then the closing tag. The capture group is that run.
\<close>

definition cellOpen :: "string \<Rightarrow> string" where
  "cellOpen label = ''<td>'' @ label @ ''</td><td>''"

definition matchHere :: "string \<Rightarrow> string \<Rightarrow> string option" where
  "matchHere label s =
     (if prefix (cellOpen label) s then
        (let rest = drop (length (cellOpen label)) s;
             v = takeWhile (\<lambda>c. c \<noteq> CHR ''<'') rest;
             after = dropWhile (\<lambda>c. c \<noteq> CHR ''<'') rest
         in if v \<noteq> [] \<and> prefix ''</td>'' after then Some v else None)
      else None)"

text \<open>\<^verbatim>\<open>desc.match(re)?.[1]\<close> for a pattern without the \<^verbatim>\<open>g\<close> flag: the start positions are
  tried from left to right and the first position with a match decides.\<close>

fun matchCell :: "string \<Rightarrow> string \<Rightarrow> string option" where
  "matchCell label [] = matchHere label []"
| "matchCell label (c # cs) =
     (case matchHere label (c # cs) of
        Some v \<Rightarrow> Some v
      | None \<Rightarrow> matchCell label cs)"

definition label_dateTime :: string where
  "label_dateTime = ''Data Hora UTC''"

definition label_satellite :: string where
  "label_satellite = ''Sat'' @ e_acute @ ''lite''"

definition label_municipio :: string where
  "label_municipio = ''Munic'' @ i_acute @ ''pio''"

definition label_estado :: string where
  "label_estado = ''Estado''"

definition defaultLabel :: string where
  "defaultLabel = ''Foco de Inc'' @ e_circumflex @ ''ndio''"

text \<open>
  The values \<^verbatim>\<open>onEachFeature\<close> computes for a feature with a property bag: the label
  (the name when it is truthy, that is, a non-empty text, and the default label otherwise)
  and the four capture groups, which are only looked for when the description is truthy.
\<close>

record annotation =
  ann_label :: string
  ann_dateTime :: "string option"
  ann_satellite :: "string option"
  ann_municipio :: "string option"
  ann_estado :: "string option"

definition annotate :: "properties \<Rightarrow> annotation" where
  "annotate p =
     (let label = (case prop_name p of
                     None \<Rightarrow> defaultLabel
                   | Some n \<Rightarrow> if n = [] then defaultLabel else n)
      in case prop_description p of
           None \<Rightarrow> \<lparr>ann_label = label, ann_dateTime = None, ann_satellite = None,
                     ann_municipio = None, ann_estado = None\<rparr>
         | Some desc \<Rightarrow>
             if desc = [] then
               \<lparr>ann_label = label, ann_dateTime = None, ann_satellite = None,
                ann_municipio = None, ann_estado = None\<rparr>
             else
               \<lparr>ann_label = label,
                ann_dateTime = matchCell label_dateTime desc,
                ann_satellite = matchCell label_satellite desc,
                ann_municipio = matchCell label_municipio desc,
                ann_estado = matchCell label_estado desc\<rparr>)"

text \<open>The popup text: the label in bold, then one line per capture group that is truthy.\<close>

definition popupLine :: "string \<Rightarrow> string option \<Rightarrow> string" where
  "popupLine title v =
     (case v of
        None \<Rightarrow> []
      | Some x \<Rightarrow> if x = [] then [] else ''<br/>'' @ title @ '': '' @ x)"

definition popupContent :: "annotation \<Rightarrow> string" where
  "popupContent a =
     ''<b>'' @ ann_label a @ ''</b>''
     @ popupLine ''Data/Hora'' (ann_dateTime a)
     @ popupLine (''Sat'' @ e_acute @ ''lite'') (ann_satellite a)
     @ popupLine (''Munic'' @ i_acute @ ''pio'') (ann_municipio a)
     @ popupLine ''Estado'' (ann_estado a)"

text \<open>\<^verbatim>\<open>onEachFeature\<close>: a popup is bound only under the guard \<^verbatim>\<open>if (feature.properties)\<close>.\<close>

definition onEachFeature :: "feature \<Rightarrow> string option" where
  "onEachFeature f =
     (case feat_properties f of
        None \<Rightarrow> None
      | Some p \<Rightarrow> Some (popupContent (annotate p)))"

section \<open>Boundary style resolver (page.tsx, lines 220-250)\<close>

record pathOptions =
  color :: string
  weight :: nat
  opacity :: real
  fillOpacity :: real
  fillColor :: string

definition defaultStyle :: pathOptions where
  "defaultStyle =
     \<lparr>color = ''#fcb4d4'', weight = 3, opacity = 0.8, fillOpacity = 0.2,
      fillColor = ''#ffffff''\<rparr>"

text \<open>\<^verbatim>\<open>feature?.properties?.styleUrl\<close>: the style reference, when the feature has a property
  bag that holds one.\<close>

definition styleUrlOf :: "feature \<Rightarrow> string option" where
  "styleUrlOf f = (case feat_properties f of None \<Rightarrow> None | Some p \<Rightarrow> prop_styleUrl p)"

text \<open>The \<^verbatim>\<open>style\<close> callback of the farm layer: the default style, overwritten field by field
  in the first branch of the \<^verbatim>\<open>if / else if\<close> chain whose token the reference includes.\<close>

definition style :: "feature \<Rightarrow> pathOptions" where
  "style f =
     (case styleUrlOf f of
        None \<Rightarrow> defaultStyle
      | Some u \<Rightarrow>
          if u = [] then defaultStyle
          else if includes_str u ''PolyStyle007'' then
            defaultStyle\<lparr>color := ''#ffffff'', fillColor := ''#fcb4d4'',
                          fillOpacity := 0.1, weight := 2\<rparr>
          else if includes_str u ''PolyStyle0012'' then
            defaultStyle\<lparr>color := ''#fcb4d4'', fillColor := ''#fcb4d4'',
                          fillOpacity := 0.1, weight := 2\<rparr>
          else if includes_str u ''PolyStyle00159'' then
            defaultStyle\<lparr>color := ''#f0f0f0'', fillColor := ''#f0f0f0'',
                          fillOpacity := 0.07, weight := 3\<rparr>
          else defaultStyle)"

section \<open>Proxy endpoint (api/inpe-kml/route.ts)\<close>



text \<open>\<^verbatim>\<open>response.ok\<close>: the status is in the range 200-299.\<close>

definition ok :: "nat \<Rightarrow> bool" where
  "ok st = (200 \<le> st \<and> st \<le> 299)"












section \<open>The map, its layers and the layers control\<close>

text \<open>
  The Leaflet objects the component creates and hands to the map. Every object has an
  identity, the number \<^verbatim>\<open>L.stamp\<close> gives it from a counter; the map and the
  control find an object by that number. A marker has a position and possibly a bound
  popup; a GeoJSON layer holds the markers made from its features; a layer group holds
  GeoJSON layers.
\<close>

type_synonym latlng = "real \<times> real"

record marker =
  marker_id :: nat
  marker_latlng :: latlng
  marker_popup :: "string option"

record geojson_layer =
  layer_id :: nat
  layer_markers :: "marker list"

record layer_group =
  group_id :: nat
  group_layers :: "geojson_layer list"

datatype layer_obj =
    OtherLayer nat
  | MarkerObj marker
  | GeoJSONObj geojson_layer
  | GroupObj layer_group

fun obj_id :: "layer_obj \<Rightarrow> nat" where
  "obj_id (OtherLayer i) = i"
| "obj_id (MarkerObj m) = marker_id m"
| "obj_id (GeoJSONObj g) = layer_id g"
| "obj_id (GroupObj g) = group_id g"

text \<open>The map is its table \<^verbatim>\<open>_layers\<close> of the objects on it, in insertion order.\<close>

type_synonym leaflet_map = "layer_obj list"

definition hasLayer :: "leaflet_map \<Rightarrow> nat \<Rightarrow> bool" where
  "hasLayer m i = (i \<in> set (map obj_id m))"

text \<open>
  \<^verbatim>\<open>map.addLayer(layer)\<close> does nothing when the layer is on the map; otherwise it enters the
  layer and runs its \<^verbatim>\<open>onAdd\<close>, which for a group or a GeoJSON layer adds each child.
  \<^verbatim>\<open>map.removeLayer(layer)\<close> does nothing when the layer is not on the map; otherwise it
  runs its \<^verbatim>\<open>onRemove\<close>, which removes each child, and deletes the layer.
\<close>

definition addMarker :: "marker \<Rightarrow> leaflet_map \<Rightarrow> leaflet_map" where
  "addMarker mk m = (if hasLayer m (marker_id mk) then m else m @ [MarkerObj mk])"

definition addGeoJSON :: "geojson_layer \<Rightarrow> leaflet_map \<Rightarrow> leaflet_map" where
  "addGeoJSON g m =
     (if hasLayer m (layer_id g) then m
      else fold addMarker (layer_markers g) (m @ [GeoJSONObj g]))"

definition addGroup :: "layer_group \<Rightarrow> leaflet_map \<Rightarrow> leaflet_map" where
  "addGroup g m =
     (if hasLayer m (group_id g) then m
      else fold addGeoJSON (group_layers g) (m @ [GroupObj g]))"

definition deleteLayer :: "nat \<Rightarrow> leaflet_map \<Rightarrow> leaflet_map" where
  "deleteLayer i m = filter (\<lambda>o'. obj_id o' \<noteq> i) m"

definition removeMarker :: "marker \<Rightarrow> leaflet_map \<Rightarrow> leaflet_map" where
  "removeMarker mk m = (if hasLayer m (marker_id mk) then deleteLayer (marker_id mk) m else m)"

definition removeGeoJSON :: "geojson_layer \<Rightarrow> leaflet_map \<Rightarrow> leaflet_map" where
  "removeGeoJSON g m =
     (if hasLayer m (layer_id g)
      then deleteLayer (layer_id g) (fold removeMarker (layer_markers g) m)
      else m)"

text \<open>The markers on the map.\<close>

fun markersOn :: "leaflet_map \<Rightarrow> marker list" where
  "markersOn [] = []"
| "markersOn (MarkerObj mk # m) = mk # markersOn m"
| "markersOn (_ # m) = markersOn m"

text \<open>
  The layers control keeps a list of entries: the layer's identity, the name shown, and
  whether it is an overlay or a base layer. \<^verbatim>\<open>addOverlay\<close> appends an entry;
  \<^verbatim>\<open>removeLayer\<close> deletes the entry of the given layer, if there is one.
\<close>

record control_entry =
  entry_layer :: nat
  entry_name :: string
  entry_overlay :: bool

type_synonym layers_control = "control_entry list"

definition addOverlay :: "nat \<Rightarrow> string \<Rightarrow> layers_control \<Rightarrow> layers_control" where
  "addOverlay i name c = c @ [\<lparr>entry_layer = i, entry_name = name, entry_overlay = True\<rparr>]"

fun control_removeLayer :: "nat \<Rightarrow> layers_control \<Rightarrow> layers_control" where
  "control_removeLayer i [] = []"
| "control_removeLayer i (e # c) =
     (if entry_layer e = i then c else e # control_removeLayer i c)"

section \<open>Fetching and processing one source (page.tsx, lines 86-159)\<close>

text \<open>What can be thrown inside the two \<^verbatim>\<open>try\<close> blocks.\<close>

datatype error =
    FetchFailed
  | BadStatus nat
  | BodyFailed
  | ParserError
  | KmlFailed
  | InvalidLatLng

text \<open>
  The XML parser and \<^verbatim>\<open>kml()\<close> are libraries; the model takes their joint behaviour on a
  text as a parameter: the parsed document holds \<^verbatim>\<open>parsererror\<close> elements, or \<^verbatim>\<open>kml()\<close>
  throws, or a feature collection comes out.
\<close>

datatype kml_result = ParserErrorDoc | KmlThrows | GeoJson "feature list"

type_synonym kml_parser = "string \<Rightarrow> kml_result"

text \<open>\<^verbatim>\<open>new LatLng(coords[1], coords[0])\<close> throws when a coordinate is missing.\<close>

fun coordsToLatLng :: "real list \<Rightarrow> error + latlng" where
  "coordsToLatLng (lng # lat # _) = Inr (lat, lng)"
| "coordsToLatLng _ = Inl InvalidLatLng"

text \<open>
  \<^verbatim>\<open>L.geoJSON(collection, { pointToLayer, onEachFeature })\<close> walks the features in order.
  A feature without geometry is skipped; otherwise (the collection holds point features
  only) a marker is made at the feature's position, \<^verbatim>\<open>onEachFeature\<close> binds its popup, and
  the marker joins the layer. Markers are stamped from \<open>i\<close> on.
\<close>

fun geoJSON_markers :: "nat \<Rightarrow> feature list \<Rightarrow> error + marker list" where
  "geoJSON_markers i [] = Inr []"
| "geoJSON_markers i (f # fs) =
     (case feat_geometry f of
        None \<Rightarrow> geoJSON_markers i fs
      | Some g \<Rightarrow>
          (case coordsToLatLng (geom_coordinates g) of
             Inl e \<Rightarrow> Inl e
           | Inr ll \<Rightarrow>
               (case geoJSON_markers (Suc i) fs of
                  Inl e \<Rightarrow> Inl e
                | Inr ms \<Rightarrow>
                    Inr (\<lparr>marker_id = i, marker_latlng = ll,
                          marker_popup = onEachFeature f\<rparr> # ms))))"

text \<open>The \<^verbatim>\<open>try\<close> block of \<^verbatim>\<open>processKMLText\<close>; the new layer is stamped \<open>i\<close>.\<close>

definition processKMLText_try :: "kml_parser \<Rightarrow> nat \<Rightarrow> string \<Rightarrow> error + geojson_layer" where
  "processKMLText_try parse i kmlText =
     (case parse kmlText of
        ParserErrorDoc \<Rightarrow> Inl ParserError
      | KmlThrows \<Rightarrow> Inl KmlFailed
      | GeoJson features \<Rightarrow>
          (let pointFs = pointFeatures features
           in if length pointFs = 0 then Inr \<lparr>layer_id = i, layer_markers = []\<rparr>
              else
                (case geoJSON_markers (Suc i) pointFs of
                   Inl e \<Rightarrow> Inl e
                 | Inr ms \<Rightarrow> Inr \<lparr>layer_id = i, layer_markers = ms\<rparr>)))"

text \<open>\<^verbatim>\<open>processKMLText\<close>: its \<^verbatim>\<open>catch\<close> turns every throw into \<^verbatim>\<open>null\<close>.\<close>

definition processKMLText :: "kml_parser \<Rightarrow> nat \<Rightarrow> string \<Rightarrow> geojson_layer option" where
  "processKMLText parse i kmlText =
     (case processKMLText_try parse i kmlText of
        Inl e \<Rightarrow> None
      | Inr layer \<Rightarrow> Some layer)"

text \<open>
  What \<^verbatim>\<open>fetch(proxyApiUrl)\<close> does for a source: the promise rejects, or a response arrives
  with a status and a body whose reading yields text or rejects (\<open>None\<close>).
\<close>

datatype fetch_result = FetchRejects | FetchResponse nat "string option"

type_synonym fetcher = "string \<Rightarrow> fetch_result"

text \<open>The \<^verbatim>\<open>try\<close> block of \<^verbatim>\<open>fetchAndProcessFireKML\<close>.\<close>

definition fetchAndProcessFireKML_try ::
  "kml_parser \<Rightarrow> fetcher \<Rightarrow> nat \<Rightarrow> string \<Rightarrow> error + geojson_layer option" where
  "fetchAndProcessFireKML_try parse fetchProxy i inpeUrl =
     (case fetchProxy inpeUrl of
        FetchRejects \<Rightarrow> Inl FetchFailed
      | FetchResponse st body \<Rightarrow>
          if \<not> ok st then Inl (BadStatus st)
          else
            (case body of
               None \<Rightarrow> Inl BodyFailed
             | Some kmlText \<Rightarrow> Inr (processKMLText parse i kmlText)))"

text \<open>
  \<^verbatim>\<open>fetchAndProcessFireKML\<close> as a promise: \<open>Inl\<close> when it rejects, \<open>Inr\<close> when it resolves.
  Its \<^verbatim>\<open>catch\<close> resolves to \<^verbatim>\<open>null\<close>.
\<close>

definition fetchAndProcessFireKML ::
  "kml_parser \<Rightarrow> fetcher \<Rightarrow> nat \<Rightarrow> string \<Rightarrow> error + geojson_layer option" where
  "fetchAndProcessFireKML parse fetchProxy i inpeUrl =
     (case fetchAndProcessFireKML_try parse fetchProxy i inpeUrl of
        Inl e \<Rightarrow> Inr None
      | Inr r \<Rightarrow> Inr r)"

section \<open>The reconciler (page.tsx, lines 162-186)\<close>

definition inpeUrls :: "string list" where
  "inpeUrls =
     [''https://dataserver-coids.inpe.br/queimadas/queimadas/focos/kml/estados-48h/focos_frentes_MT.kml'',
      ''https://dataserver-coids.inpe.br/queimadas/queimadas/focos/kml/estados-48h/focos_frentes_MS.kml'',
      ''https://dataserver-coids.inpe.br/queimadas/queimadas/focos/kml/estados-48h/focos_frentes_BA.kml'',
      ''https://dataserver-coids.inpe.br/queimadas/queimadas/focos/kml/estados-48h/focos_frentes_MA.kml'']"

text \<open>The number of stamps a result has used: one for a layer and one for each marker.\<close>

definition stamps :: "geojson_layer option \<Rightarrow> nat" where
  "stamps r = (case r of None \<Rightarrow> 0 | Some layer \<Rightarrow> Suc (length (layer_markers layer)))"

text \<open>\<^verbatim>\<open>Promise.all(urls.map(url => fetchAndProcessFireKML(url)))\<close>: it rejects as soon as
  one of the promises rejects, and otherwise resolves to the results in the order of the
  addresses.\<close>

fun fetchAll ::
  "kml_parser \<Rightarrow> fetcher \<Rightarrow> nat \<Rightarrow> string list \<Rightarrow> error + geojson_layer option list" where
  "fetchAll parse fetchProxy i [] = Inr []"
| "fetchAll parse fetchProxy i (u # us) =
     (case fetchAndProcessFireKML parse fetchProxy i u of
        Inl e \<Rightarrow> Inl e
      | Inr r \<Rightarrow>
          (case fetchAll parse fetchProxy (i + stamps r) us of
             Inl e \<Rightarrow> Inl e
           | Inr rs \<Rightarrow> Inr (r # rs)))"

text \<open>\<^verbatim>\<open>newLayers.filter(layer => layer !== null)\<close>\<close>

fun validLayers :: "geojson_layer option list \<Rightarrow> geojson_layer list" where
  "validLayers [] = []"
| "validLayers (None # rs) = validLayers rs"
| "validLayers (Some layer # rs) = layer # validLayers rs"

text \<open>
  The state the component keeps between calls: the two refs, the React state
  \<^verbatim>\<open>fireDataLayers\<close> as last set, and the next stamp Leaflet will give.
\<close>

record world =
  mapRef :: "leaflet_map option"
  layersControlRef :: "layers_control option"
  fireDataLayersState :: "geojson_layer list"
  nextId :: nat

definition fireOverlayName :: string where
  "fireOverlayName = ''Focos de Inc'' @ e_circumflex @ ''ndio (INPE)''"

text \<open>The body of the \<^verbatim>\<open>forEach\<close> over the old layers.\<close>

definition removeOldLayer :: "geojson_layer \<Rightarrow> world \<Rightarrow> world" where
  "removeOldLayer layer w =
     w\<lparr>mapRef := map_option (removeGeoJSON layer) (mapRef w),
       layersControlRef := map_option (control_removeLayer (layer_id layer)) (layersControlRef w)\<rparr>"

text \<open>
  \<^verbatim>\<open>updateFireData\<close>. Its first parameter is the value of the variable \<^verbatim>\<open>fireDataLayers\<close>
  in the closure that is called: \<^verbatim>\<open>fireDataLayers\<close> is a \<^verbatim>\<open>const\<close> of one render of the
  component, and \<^verbatim>\<open>updateFireData\<close> is defined anew in every render over that render's
  value. The result is \<open>Inl\<close> when the returned promise rejects.
\<close>

definition updateFireData ::
  "geojson_layer list \<Rightarrow> string list \<Rightarrow> kml_parser \<Rightarrow> fetcher \<Rightarrow> world \<Rightarrow> error + world" where
  "updateFireData fireDataLayers urls parse fetchProxy w =
     (case mapRef w of
        None \<Rightarrow> Inr w
      | Some _ \<Rightarrow>
          (case fetchAll parse fetchProxy (nextId w) urls of
             Inl e \<Rightarrow> Inl e
           | Inr newLayers \<Rightarrow>
               (let validNewLayers = validLayers newLayers;
                    w1 = fold removeOldLayer fireDataLayers w;
                    gid = nextId w + sum_list (map stamps newLayers);
                    fireLayerGroup = \<lparr>group_id = gid, group_layers = validNewLayers\<rparr>;
                    w2 = w1\<lparr>mapRef := map_option (addGroup fireLayerGroup) (mapRef w1),
                            layersControlRef :=
                              map_option (addOverlay gid fireOverlayName) (layersControlRef w1)\<rparr>
                in Inr (w2\<lparr>fireDataLayersState := validNewLayers, nextId := Suc gid\<rparr>))))"

subsection \<open>The calls the component makes\<close>

text \<open>
  The effect of lines 283-357 has the dependencies \<^verbatim>\<open>[center, zoom]\<close>, and its body creates
  the map only when \<^verbatim>\<open>mapRef.current\<close> is still empty. So the one \<^verbatim>\<open>updateFireData\<close> that is
  ever called, at line 338 and by the interval of line 341, is that of the render in
  which the map was created: the first one, in which \<^verbatim>\<open>fireDataLayers\<close> is the initial state
  of line 81, the empty array. \<^verbatim>\<open>setFireDataLayers\<close> changes what later renders see; the
  closure the interval holds stays as it is.
\<close>

definition initialFireDataLayers :: "geojson_layer list" where
  "initialFireDataLayers = []"

definition reconcile :: "kml_parser \<Rightarrow> fetcher \<Rightarrow> world \<Rightarrow> error + world" where
  "reconcile parse fetchProxy w = updateFireData initialFireDataLayers inpeUrls parse fetchProxy w"

text \<open>A sequence of cycles, one fetch behaviour for each; a rejected call would leave the
  state as it was.\<close>

fun cycles :: "kml_parser \<Rightarrow> fetcher list \<Rightarrow> world \<Rightarrow> world" where
  "cycles parse [] w = w"
| "cycles parse (fetchProxy # rest) w =
     (case reconcile parse fetchProxy w of
        Inl e \<Rightarrow> cycles parse rest w
      | Inr w' \<Rightarrow> cycles parse rest w')"

text \<open>The state the effect leaves before its first call of \<^verbatim>\<open>updateFireData\<close>: the map with
  the OpenStreetMap tiles on it, and the control with the two base layers.\<close>

definition mounted :: world where
  "mounted =
     \<lparr>mapRef = Some [OtherLayer 1],
      layersControlRef =
        Some [\<lparr>entry_layer = 1, entry_name = ''OpenStreetMap'', entry_overlay = False\<rparr>,
              \<lparr>entry_layer = 2, entry_name = ''Sat'' @ e_acute @ ''lite (ESRI)'',
               entry_overlay = False\<rparr>],
      fireDataLayersState = [],
      nextId = 3\<rparr>"

text \<open>What the claims observe: the control's overlay entries under the hotspot name, and
  the hotspot markers on the map.\<close>

definition fireEntries :: "world \<Rightarrow> control_entry list" where
  "fireEntries w =
     (case layersControlRef w of
        None \<Rightarrow> []
      | Some c \<Rightarrow> filter (\<lambda>e. entry_overlay e \<and> entry_name e = fireOverlayName) c)"

definition markersShown :: "world \<Rightarrow> marker list" where
  "markersShown w = (case mapRef w of None \<Rightarrow> [] | Some m \<Rightarrow> markersOn m)"

text \<open>
  When a source fails, that is, when \<^verbatim>\<open>fetchAndProcessFireKML\<close> resolves to \<^verbatim>\<open>null\<close>: the fetch
  rejects, the status is not a success, the body cannot be read, the document does not
  parse, \<^verbatim>\<open>kml()\<close> throws, or a point feature has no usable position.
\<close>

definition validPoint :: "feature \<Rightarrow> bool" where
  "validPoint f =
     (case feat_geometry f of None \<Rightarrow> True | Some g \<Rightarrow> 2 \<le> length (geom_coordinates g))"

definition sourceFails :: "kml_parser \<Rightarrow> fetch_result \<Rightarrow> bool" where
  "sourceFails parse r =
     (case r of
        FetchRejects \<Rightarrow> True
      | FetchResponse st body \<Rightarrow>
          \<not> ok st \<or>
          (case body of
             None \<Rightarrow> True
           | Some kmlText \<Rightarrow>
               (case parse kmlText of
                  GeoJson features \<Rightarrow> \<not> list_all validPoint (pointFeatures features)
                | _ \<Rightarrow> True)))"

text \<open>What a point feature is to become on the map: the position of its marker, when its
  coordinates give one, and its popup text.\<close>

definition positionOf :: "feature \<Rightarrow> latlng option" where
  "positionOf f =
     (case feat_geometry f of
        None \<Rightarrow> None
      | Some g \<Rightarrow>
          (case coordsToLatLng (geom_coordinates g) of
             Inl e \<Rightarrow> None
           | Inr ll \<Rightarrow> Some ll))"

definition annotated :: "feature \<Rightarrow> latlng option \<times> string option" where
  "annotated f = (positionOf f, onEachFeature f)"

definition shownAs :: "marker \<Rightarrow> latlng option \<times> string option" where
  "shownAs mk = (Some (marker_latlng mk), marker_popup mk)"

text \<open>
  Stamps are given in increasing order, so an object made in a cycle has a stamp that no
  object on the map carries. The following predicates say so: the stamps on the map are
  below a bound, or outside a range; the markers of a layer, a layer, and the results of
  a cycle carry consecutive stamps from a given one on. \<open>layerObjects\<close> are the objects a
  layer brings onto the map.
\<close>

definition idsOutside :: "leaflet_map \<Rightarrow> nat \<Rightarrow> nat \<Rightarrow> bool" where
  "idsOutside m lo hi = (\<forall>o' \<in> set m. obj_id o' < lo \<or> hi \<le> obj_id o')"

definition idsBelow :: "leaflet_map \<Rightarrow> nat \<Rightarrow> bool" where
  "idsBelow m n = (\<forall>o' \<in> set m. obj_id o' < n)"

fun stampedMarkers :: "nat \<Rightarrow> marker list \<Rightarrow> bool" where
  "stampedMarkers i [] = True"
| "stampedMarkers i (mk # ms) = (marker_id mk = i \<and> stampedMarkers (Suc i) ms)"

definition wellStamped :: "nat \<Rightarrow> geojson_layer \<Rightarrow> bool" where
  "wellStamped i layer = (layer_id layer = i \<and> stampedMarkers (Suc i) (layer_markers layer))"

fun stampedFrom :: "nat \<Rightarrow> geojson_layer option list \<Rightarrow> bool" where
  "stampedFrom i [] = True"
| "stampedFrom i (None # rs) = stampedFrom i rs"
| "stampedFrom i (Some layer # rs) =
     (wellStamped i layer \<and> stampedFrom (i + stamps (Some layer)) rs)"

definition layerObjects :: "geojson_layer \<Rightarrow> layer_obj list" where
  "layerObjects layer = GeoJSONObj layer # map MarkerObj (layer_markers layer)"

section \<open>Refresh scheduler (page.tsx, lines 76 and 283-357)\<close>

definition REFRESH_INTERVAL :: nat where
  "REFRESH_INTERVAL = 600 * 1000"

text \<open>
  The scheduler over a simulated clock in milliseconds: whether the map has been created
  (\<^verbatim>\<open>mapRef.current\<close>), when the interval timer is next due (\<open>None\<close> when no timer is armed),
  and the times at which \<^verbatim>\<open>updateFireData\<close> has been invoked.
\<close>

record scheduler =
  clock :: nat
  mapCreated :: bool
  intervalDue :: "nat option"
  invocations :: "nat list"

definition unmounted :: scheduler where
  "unmounted = \<lparr>clock = 0, mapCreated = False, intervalDue = None, invocations = []\<rparr>"

text \<open>The body of the effect: under its guard it creates the map, calls \<^verbatim>\<open>updateFireData\<close>
  at once and arms the interval. The argument says whether the container element exists.\<close>

definition effect :: "bool \<Rightarrow> scheduler \<Rightarrow> scheduler" where
  "effect containerPresent s =
     (if containerPresent \<and> \<not> mapCreated s then
        s\<lparr>mapCreated := True,
          invocations := invocations s @ [clock s],
          intervalDue := Some (clock s + REFRESH_INTERVAL)\<rparr>
      else s)"

text \<open>The cleanup function of the effect: \<^verbatim>\<open>clearInterval(intervalId)\<close>.\<close>

definition cleanup :: "scheduler \<Rightarrow> scheduler" where
  "cleanup s = s\<lparr>intervalDue := None\<rparr>"

text \<open>The interval fires: the callback runs and the timer is due one period later.\<close>

definition fire :: "nat \<Rightarrow> scheduler \<Rightarrow> scheduler" where
  "fire due s =
     s\<lparr>clock := due, invocations := invocations s @ [due],
       intervalDue := Some (due + REFRESH_INTERVAL)\<rparr>"

text \<open>The event loop runs until the clock shows \<open>t\<close>, firing the interval whenever it is due.\<close>

function advanceTo :: "nat \<Rightarrow> scheduler \<Rightarrow> scheduler" where
  "advanceTo t s =
     (case intervalDue s of
        None \<Rightarrow> s\<lparr>clock := max (clock s) t\<rparr>
      | Some due \<Rightarrow>
          if due \<le> t then advanceTo t (fire due s)
          else s\<lparr>clock := max (clock s) t\<rparr>)"
  by pat_completeness auto
termination
  by (relation "measure (\<lambda>(t, s). case intervalDue s of None \<Rightarrow> 0 | Some due \<Rightarrow> Suc t - due)")
     (auto simp: fire_def REFRESH_INTERVAL_def)

declare advanceTo.simps [simp del]

section \<open>Inputs used in the examples\<close>

definition examplePoint :: "real \<Rightarrow> real \<Rightarrow> properties option \<Rightarrow> feature" where
  "examplePoint lat lng props =
     \<lparr>feat_geometry = Some \<lparr>geom_type = ''Point'', geom_coordinates = [lng, lat]\<rparr>,
      feat_properties = props\<rparr>"

definition noProperties :: properties where
  "noProperties = \<lparr>prop_name = None, prop_description = None, prop_styleUrl = None\<rparr>"

text \<open>A row of the description table of the feed: a label cell and a value cell.\<close>

definition tableRow :: "string \<Rightarrow> string \<Rightarrow> string" where
  "tableRow label v = ''<td>'' @ label @ ''</td><td>'' @ v @ ''</td>''"

definition fieldPatterns :: "(string \<times> (annotation \<Rightarrow> string option)) list" where
  "fieldPatterns =
     [(label_dateTime, ann_dateTime), (label_satellite, ann_satellite),
      (label_municipio, ann_municipio), (label_estado, ann_estado)]"

definition exampleDescription :: string where
  "exampleDescription =
     tableRow label_dateTime ''2024-08-01 12:00'' @ tableRow label_satellite ''AQUA_M-T''
     @ ''<td>Bioma</td><td>Cerrado</td>''"

definition exampleProperties :: properties where
  "exampleProperties =
     \<lparr>prop_name = None, prop_description = Some exampleDescription, prop_styleUrl = None\<rparr>"

text \<open>A description that holds its two rows as plain text, a label, a colon and the value,
  on a line each.\<close>

definition literalDescription :: string where
  "literalDescription =
     ''Data Hora UTC: 2024-08-01 12:00'' @ [CHR 0x0A] @ ''Sat'' @ e_acute @ ''lite: AQUA_M-T''"

definition literalProperties :: properties where
  "literalProperties =
     \<lparr>prop_name = None, prop_description = Some literalDescription, prop_styleUrl = None\<rparr>"

definition exampleBoundary :: "string option \<Rightarrow> feature" where
  "exampleBoundary ref =
     \<lparr>feat_geometry = Some \<lparr>geom_type = ''Polygon'', geom_coordinates = []\<rparr>,
      feat_properties = Some \<lparr>prop_name = None, prop_description = None, prop_styleUrl = ref\<rparr>\<rparr>"

text \<open>The style tuples of the three known tokens.\<close>

definition style007 :: pathOptions where
  "style007 =
     \<lparr>color = ''#ffffff'', weight = 2, opacity = 0.8, fillOpacity = 0.1, fillColor = ''#fcb4d4''\<rparr>"

definition style0012 :: pathOptions where
  "style0012 =
     \<lparr>color = ''#fcb4d4'', weight = 2, opacity = 0.8, fillOpacity = 0.1, fillColor = ''#fcb4d4''\<rparr>"

definition style00159 :: pathOptions where
  "style00159 =
     \<lparr>color = ''#f0f0f0'', weight = 3, opacity = 0.8, fillOpacity = 0.07, fillColor = ''#f0f0f0''\<rparr>"

text \<open>A parser that knows two documents, one with a single hotspot and one with none, and
  fetch behaviours over them: the first source delivers the given text and the other
  three reject.\<close>

definition exampleParse :: kml_parser where
  "exampleParse kmlText =
     (if kmlText = ''<kml><Placemark/></kml>'' then
        GeoJson [examplePoint (-12.5) (-55.7) (Some noProperties)]
      else if kmlText = ''<kml/>'' then GeoJson []
      else ParserErrorDoc)"

definition firstSourceDelivers :: "string \<Rightarrow> fetcher" where
  "firstSourceDelivers kmlText url =
     (if url = inpeUrls ! 0 then FetchResponse 200 (Some kmlText) else FetchRejects)"

definition allRejected :: fetcher where
  "allRejected url = FetchRejects"

text \<open>The state after a first cycle in which the first source delivered the document with
  one hotspot (lemma \<open>first_cycle\<close> below).\<close>

definition exampleMarker :: marker where
  "exampleMarker =
     \<lparr>marker_id = 4, marker_latlng = (-12.5, -55.7),
      marker_popup = Some (''<b>'' @ defaultLabel @ ''</b>'')\<rparr>"

definition exampleWorld :: world where
  "exampleWorld =
     \<lparr>mapRef = Some [OtherLayer 1,
        GroupObj \<lparr>group_id = 5,
                  group_layers = [\<lparr>layer_id = 3, layer_markers = [exampleMarker]\<rparr>]\<rparr>,
        GeoJSONObj \<lparr>layer_id = 3, layer_markers = [exampleMarker]\<rparr>,
        MarkerObj exampleMarker],
      layersControlRef = Some
        [\<lparr>entry_layer = 1, entry_name = ''OpenStreetMap'', entry_overlay = False\<rparr>,
         \<lparr>entry_layer = 2, entry_name = ''Sat'' @ e_acute @ ''lite (ESRI)'',
          entry_overlay = False\<rparr>,
         \<lparr>entry_layer = 5, entry_name = fireOverlayName, entry_overlay = True\<rparr>],
      fireDataLayersState = [\<lparr>layer_id = 3, layer_markers = [exampleMarker]\<rparr>],
      nextId = 6\<rparr>"

section \<open>Properties of the point feature filter\<close>

lemma pointFeatures_filter: "pointFeatures fs = filter isPoint fs"
  by (induction fs) simp_all

lemma pointFeatures_all: "list_all isPoint (pointFeatures fs)"
  by (simp add: pointFeatures_filter list_all_iff)

text \<open>
  Claim C8. The point feature filter is idempotent: on a collection whose features all
  have the geometry type \<^verbatim>\<open>Point\<close> it returns the collection itself, and applying it twice
  is applying it once; on every collection its output is the input restricted, in order
  and with multiplicity, to the features whose geometry type is \<^verbatim>\<open>Point\<close>, so it contains
  exactly those.
\<close>

theorem point_filter_idempotent:
  "((\<forall>f \<in> set fs. \<exists>g. feat_geometry f = Some g \<and> geom_type g = ''Point'') \<longrightarrow>
      pointFeatures fs = fs)
   \<and> pointFeatures (pointFeatures fs) = pointFeatures fs
   \<and> pointFeatures fs
       = filter (\<lambda>f. \<exists>g. feat_geometry f = Some g \<and> geom_type g = ''Point'') fs
   \<and> (\<forall>f. f \<in> set (pointFeatures fs) \<longleftrightarrow>
          f \<in> set fs \<and> (\<exists>g. feat_geometry f = Some g \<and> geom_type g = ''Point''))"
proof -
  have p: "isPoint = (\<lambda>f. \<exists>g. feat_geometry f = Some g \<and> geom_type g = ''Point'')"
    by (auto simp: isPoint_def fun_eq_iff split: option.splits)
  show ?thesis
    unfolding pointFeatures_filter p by (auto simp: filter_id_conv)
qed

theorem point_filter_idempotent_witness:
  "pointFeatures [examplePoint 1 2 None, examplePoint 3 4 None]
     = [examplePoint 1 2 None, examplePoint 3 4 None]"
  using point_filter_idempotent [of "[examplePoint 1 2 None, examplePoint 3 4 None]"]
  by (simp add: examplePoint_def)

section \<open>Properties of the annotator\<close>

text \<open>A table row at the head of the text is a match of its label's pattern, and the
  capture group is the value cell.\<close>

lemma matchHere_tableRow:
  assumes "v \<noteq> []" and "CHR ''<'' \<notin> set v"
  shows "matchHere label (tableRow label v @ post) = Some v"
proof -
  have tw: "takeWhile (\<lambda>c. c \<noteq> CHR ''<'') (v @ CHR ''<'' # r) = v" for r
    using assms(2) by (induction v) auto
  have dw: "dropWhile (\<lambda>c. c \<noteq> CHR ''<'') (v @ CHR ''<'' # r) = CHR ''<'' # r" for r
    using assms(2) by (induction v) auto
  have e: "tableRow label v @ post = cellOpen label @ (v @ ''</td>'' @ post)"
    by (simp add: tableRow_def cellOpen_def)
  show ?thesis
    unfolding matchHere_def e using assms(1)
    by (simp add: tw dw Let_def)
qed

text \<open>The first position with a match decides; no match at any position gives nothing.\<close>

lemma matchCell_first:
  "matchHere label s = Some v \<Longrightarrow> \<forall>j<length pre. matchHere label (drop j (pre @ s)) = None
     \<Longrightarrow> matchCell label (pre @ s) = Some v"
proof (induction pre)
  case Nil
  then show ?case by (cases s) simp_all
next
  case (Cons c pre)
  have "matchHere label (c # pre @ s) = None"
    using Cons.prems(2) by (auto dest: spec[of _ 0])
  moreover have "\<forall>j<length pre. matchHere label (drop j (pre @ s)) = None"
  proof (intro allI impI)
    fix j assume "j < length pre"
    then have "matchHere label (drop (Suc j) ((c # pre) @ s)) = None"
      using Cons.prems(2) by (metis Suc_less_eq length_Cons)
    then show "matchHere label (drop j (pre @ s)) = None" by simp
  qed
  ultimately show ?case using Cons by simp
qed

lemma matchCell_None:
  "(matchCell label s = None) \<longleftrightarrow> (\<forall>j\<le>length s. matchHere label (drop j s) = None)"
proof (induction s)
  case Nil
  then show ?case by simp
next
  case (Cons c cs)
  have "(\<forall>j\<le>length (c # cs). matchHere label (drop j (c # cs)) = None)
        \<longleftrightarrow> matchHere label (c # cs) = None
            \<and> (\<forall>j\<le>length cs. matchHere label (drop j cs) = None)"
    (is "?L \<longleftrightarrow> ?R")
  proof
    assume l: ?L
    have "matchHere label (drop 0 (c # cs)) = None" using l by blast
    moreover have "matchHere label (drop j cs) = None" if "j \<le> length cs" for j
      using l that by (auto dest: spec[of _ "Suc j"])
    ultimately show ?R by simp
  next
    assume r: ?R
    show ?L
    proof (intro allI impI)
      fix j assume "j \<le> length (c # cs)"
      then show "matchHere label (drop j (c # cs)) = None"
        using r by (cases j) auto
    qed
  qed
  then show ?case using Cons.IH by (auto split: option.splits)
qed

lemma annotate_fields:
  "prop_description p = Some desc \<Longrightarrow> desc \<noteq> [] \<Longrightarrow>
     ann_dateTime (annotate p) = matchCell label_dateTime desc
   \<and> ann_satellite (annotate p) = matchCell label_satellite desc
   \<and> ann_municipio (annotate p) = matchCell label_municipio desc
   \<and> ann_estado (annotate p) = matchCell label_estado desc"
  by (simp add: annotate_def Let_def)

lemma annotate_no_description:
  "prop_description p = None \<or> prop_description p = Some [] \<Longrightarrow>
     ann_dateTime (annotate p) = None \<and> ann_satellite (annotate p) = None
   \<and> ann_municipio (annotate p) = None \<and> ann_estado (annotate p) = None"
  by (auto simp: annotate_def Let_def)

lemma field_first_match:
  assumes d: "prop_description p = Some desc"
    and lf: "(label, field) \<in> set fieldPatterns"
    and e: "desc = pre @ tableRow label v @ post"
    and v: "v \<noteq> []" "CHR ''<'' \<notin> set v"
    and first: "\<forall>j<length pre. matchHere label (drop j desc) = None"
  shows "field (annotate p) = Some v"
proof -
  have ne: "desc \<noteq> []" using e by (simp add: tableRow_def)
  have "matchCell label desc = Some v"
    unfolding e using first matchHere_tableRow[OF v, of label post]
    by (intro matchCell_first) (simp_all add: e)
  then show ?thesis
    using lf annotate_fields[OF d ne] by (auto simp: fieldPatterns_def)
qed

lemma field_no_match:
  assumes d: "prop_description p = Some desc"
    and lf: "(label, field) \<in> set fieldPatterns"
    and none: "\<forall>j\<le>length desc. matchHere label (drop j desc) = None"
  shows "field (annotate p) = None"
proof (cases "desc = []")
  case True
  then show ?thesis
    using lf d annotate_no_description[of p] by (auto simp: fieldPatterns_def)
next
  case False
  have "matchCell label desc = None" using none by (simp add: matchCell_None)
  then show ?thesis
    using lf annotate_fields[OF d False] by (auto simp: fieldPatterns_def)
qed

lemma example_no_match:
  "matchCell label_municipio exampleDescription = None"
  "matchCell label_estado exampleDescription = None"
  by (simp_all add: exampleDescription_def tableRow_def label_dateTime_def label_satellite_def
    label_municipio_def label_estado_def matchHere_def cellOpen_def e_acute_def i_acute_def)

text \<open>
  Claim C5, as stated, fails. A description that holds the rows as the claim writes them,
  \<^verbatim>\<open>Data Hora UTC: 2024-08-01 12:00\<close> and the satellite row with \<^verbatim>\<open>AQUA_M-T\<close>, matches none of
  the patterns, which look for table cells; the observed-time field and the sensor field
  are both absent.
\<close>

theorem literal_rows_counterexample:
  "prop_description literalProperties = Some literalDescription
   \<and> includes_str literalDescription ''Data Hora UTC: 2024-08-01 12:00''
   \<and> includes_str literalDescription (''Sat'' @ e_acute @ ''lite: AQUA_M-T'')
   \<and> ann_dateTime (annotate literalProperties) = None
   \<and> ann_satellite (annotate literalProperties) = None"
  by (simp add: literalProperties_def literalDescription_def annotate_def Let_def
      label_dateTime_def label_satellite_def label_municipio_def label_estado_def
      matchHere_def cellOpen_def e_acute_def i_acute_def startsWith_def)

text \<open>
  Claim C5, amended. The rows are rows of the description table, a label cell followed by
  a value cell (\<open>tableRow\<close>, that is \<^verbatim>\<open><td>label</td><td>value</td>\<close>), which is what the four
  patterns match. For a feature whose description holds the row of \<^verbatim>\<open>Data Hora UTC\<close> with
  the value \<^verbatim>\<open>2024-08-01 12:00\<close> as the first match of that pattern, the observed-time field
  is that value; likewise the sensor field is \<^verbatim>\<open>AQUA_M-T\<close> for the row of the satellite
  label. A field whose pattern matches at no position of the description is absent. In
  general, for each of the four fields, a row of its label that no match of the pattern
  precedes gives the field its value: the first match in document order is the one
  extracted.
\<close>

theorem field_extraction:
  assumes "prop_description p = Some desc"
  shows
    "(\<forall>pre post.
        desc = pre @ tableRow label_dateTime ''2024-08-01 12:00'' @ post
        \<and> (\<forall>j<length pre. matchHere label_dateTime (drop j desc) = None)
        \<longrightarrow> ann_dateTime (annotate p) = Some ''2024-08-01 12:00'')
     \<and> (\<forall>pre post.
        desc = pre @ tableRow label_satellite ''AQUA_M-T'' @ post
        \<and> (\<forall>j<length pre. matchHere label_satellite (drop j desc) = None)
        \<longrightarrow> ann_satellite (annotate p) = Some ''AQUA_M-T'')
     \<and> (\<forall>(label, field) \<in> set fieldPatterns.
          (\<forall>j\<le>length desc. matchHere label (drop j desc) = None)
          \<longrightarrow> field (annotate p) = None)
     \<and> (\<forall>(label, field) \<in> set fieldPatterns. \<forall>pre v post.
          desc = pre @ tableRow label v @ post \<and> v \<noteq> [] \<and> CHR ''<'' \<notin> set v
          \<and> (\<forall>j<length pre. matchHere label (drop j desc) = None)
          \<longrightarrow> field (annotate p) = Some v)"
proof (intro conjI)
  show "\<forall>pre post.
        desc = pre @ tableRow label_dateTime ''2024-08-01 12:00'' @ post
        \<and> (\<forall>j<length pre. matchHere label_dateTime (drop j desc) = None)
        \<longrightarrow> ann_dateTime (annotate p) = Some ''2024-08-01 12:00''"
  proof (intro allI impI, elim conjE)
    fix pre post
    assume e: "desc = pre @ tableRow label_dateTime ''2024-08-01 12:00'' @ post"
      and f: "\<forall>j<length pre. matchHere label_dateTime (drop j desc) = None"
    show "ann_dateTime (annotate p) = Some ''2024-08-01 12:00''"
      by (rule field_first_match[OF assms _ e _ _ f]) (simp_all add: fieldPatterns_def)
  qed
  show "\<forall>pre post.
        desc = pre @ tableRow label_satellite ''AQUA_M-T'' @ post
        \<and> (\<forall>j<length pre. matchHere label_satellite (drop j desc) = None)
        \<longrightarrow> ann_satellite (annotate p) = Some ''AQUA_M-T''"
  proof (intro allI impI, elim conjE)
    fix pre post
    assume e: "desc = pre @ tableRow label_satellite ''AQUA_M-T'' @ post"
      and f: "\<forall>j<length pre. matchHere label_satellite (drop j desc) = None"
    show "ann_satellite (annotate p) = Some ''AQUA_M-T''"
      by (rule field_first_match[OF assms _ e _ _ f]) (simp_all add: fieldPatterns_def)
  qed
  show "\<forall>(label, field) \<in> set fieldPatterns.
          (\<forall>j\<le>length desc. matchHere label (drop j desc) = None)
          \<longrightarrow> field (annotate p) = None"
    using field_no_match[OF assms] by blast
  show "\<forall>(label, field) \<in> set fieldPatterns. \<forall>pre v post.
          desc = pre @ tableRow label v @ post \<and> v \<noteq> [] \<and> CHR ''<'' \<notin> set v
          \<and> (\<forall>j<length pre. matchHere label (drop j desc) = None)
          \<longrightarrow> field (annotate p) = Some v"
    using field_first_match[OF assms] by blast
qed

theorem field_extraction_witness:
  "ann_dateTime (annotate exampleProperties) = Some ''2024-08-01 12:00''
   \<and> ann_satellite (annotate exampleProperties) = Some ''AQUA_M-T''
   \<and> ann_municipio (annotate exampleProperties) = None
   \<and> ann_estado (annotate exampleProperties) = None
   \<and> popupContent (annotate exampleProperties)
       = ''<b>'' @ defaultLabel @ ''</b><br/>Data/Hora: 2024-08-01 12:00<br/>Sat'' @ e_acute
         @ ''lite: AQUA_M-T''"
proof -
  have d: "prop_description exampleProperties = Some exampleDescription"
    by (simp add: exampleProperties_def)
  note T = field_extraction[OF d]
  have e1: "exampleDescription = [] @ tableRow label_dateTime ''2024-08-01 12:00''
              @ (tableRow label_satellite ''AQUA_M-T'' @ ''<td>Bioma</td><td>Cerrado</td>'')"
    by (simp add: exampleDescription_def)
  have e2: "exampleDescription = tableRow label_dateTime ''2024-08-01 12:00''
              @ tableRow label_satellite ''AQUA_M-T'' @ ''<td>Bioma</td><td>Cerrado</td>''"
    by (simp add: exampleDescription_def)
  have f2: "\<forall>j<length (tableRow label_dateTime ''2024-08-01 12:00'').
              matchHere label_satellite (drop j exampleDescription) = None"
    by (simp add: exampleDescription_def tableRow_def label_dateTime_def label_satellite_def
        matchHere_def cellOpen_def e_acute_def All_less_Suc)
  have n3: "\<forall>j\<le>length exampleDescription.
              matchHere label_municipio (drop j exampleDescription) = None"
    using example_no_match(1) by (simp add: matchCell_None)
  have n4: "\<forall>j\<le>length exampleDescription.
              matchHere label_estado (drop j exampleDescription) = None"
    using example_no_match(2) by (simp add: matchCell_None)
  have "ann_dateTime (annotate exampleProperties) = Some ''2024-08-01 12:00''"
  proof -
    have "\<forall>j<length ([]::string). matchHere label_dateTime (drop j exampleDescription) = None"
      by simp
    with T e1 show ?thesis by blast
  qed
  moreover have "ann_satellite (annotate exampleProperties) = Some ''AQUA_M-T''"
    using T e2 f2 by blast
  moreover have "ann_municipio (annotate exampleProperties) = None"
    using T n3 by (simp add: fieldPatterns_def)
  moreover have "ann_estado (annotate exampleProperties) = None"
    using T n4 by (simp add: fieldPatterns_def)
  moreover have "ann_label (annotate exampleProperties) = defaultLabel"
    by (simp add: annotate_def exampleProperties_def Let_def)
  ultimately show ?thesis by (simp add: popupContent_def popupLine_def)
qed

text \<open>The guard of \<^verbatim>\<open>onEachFeature\<close>: without a property bag no popup is bound.\<close>

lemma onEachFeature_without_properties:
  "feat_properties f = None \<Longrightarrow> onEachFeature f = None"
  by (simp add: onEachFeature_def)



section \<open>Properties of the boundary style resolver\<close>

text \<open>\<^verbatim>\<open>includes\<close> is the substring test.\<close>

lemma includes_str_iff: "includes_str s t \<longleftrightarrow> (\<exists>pre post. s = pre @ t @ post)"
proof (induction s)
  case Nil
  then show ?case by simp
next
  case (Cons c cs)
  show ?case
  proof
    assume "includes_str (c # cs) t"
    then consider "prefix t (c # cs)" | "includes_str cs t" by (auto simp: startsWith_def)
    then show "\<exists>pre post. c # cs = pre @ t @ post"
    proof cases
      case 1
      then obtain post where "c # cs = t @ post" by (auto simp: prefix_def)
      then have "c # cs = [] @ t @ post" by simp
      then show ?thesis by blast
    next
      case 2
      then obtain pre post where "cs = pre @ t @ post" using Cons.IH by blast
      then have "c # cs = (c # pre) @ t @ post" by simp
      then show ?thesis by blast
    qed
  next
    assume "\<exists>pre post. c # cs = pre @ t @ post"
    then obtain pre post where e: "c # cs = pre @ t @ post" by blast
    show "includes_str (c # cs) t"
    proof (cases pre)
      case Nil
      then have "c # cs = t @ post" using e by simp
      then have "prefix t (c # cs)" by (rule prefixI)
      then show ?thesis by (simp add: startsWith_def)
    next
      case (Cons a pre')
      then have "cs = pre' @ t @ post" using e by simp
      then show ?thesis using Cons.IH by auto
    qed
  qed
qed

text \<open>
  Claim C9. Style resolution is a function of the feature's style reference alone. A
  reference that includes a known token resolves to the fixed style tuple of a known
  token it includes (\<open>style007\<close>, \<open>style0012\<close>, \<open>style00159\<close>); the chain of tests is
  tried in the order \<^verbatim>\<open>PolyStyle007\<close>, \<^verbatim>\<open>PolyStyle0012\<close>, \<^verbatim>\<open>PolyStyle00159\<close>, so a reference
  that includes one token only resolves to the tuple of that token. A feature with no
  style reference, or with one that includes none of the tokens, resolves to the default
  tuple, whose stroke colour and fill colour differ.
\<close>

theorem style_resolution:
  "(styleUrlOf f = Some u \<longrightarrow>
      (includes_str u ''PolyStyle007'' \<longrightarrow> style f = style007)
    \<and> (\<not> includes_str u ''PolyStyle007'' \<and> includes_str u ''PolyStyle0012'' \<longrightarrow> style f = style0012)
    \<and> (\<not> includes_str u ''PolyStyle007'' \<and> \<not> includes_str u ''PolyStyle0012''
         \<and> includes_str u ''PolyStyle00159'' \<longrightarrow> style f = style00159)
    \<and> (includes_str u ''PolyStyle007'' \<or> includes_str u ''PolyStyle0012''
         \<or> includes_str u ''PolyStyle00159'' \<longrightarrow>
           includes_str u ''PolyStyle007'' \<and> style f = style007
         \<or> includes_str u ''PolyStyle0012'' \<and> style f = style0012
         \<or> includes_str u ''PolyStyle00159'' \<and> style f = style00159)
    \<and> (\<not> includes_str u ''PolyStyle007'' \<and> \<not> includes_str u ''PolyStyle0012''
         \<and> \<not> includes_str u ''PolyStyle00159'' \<longrightarrow> style f = defaultStyle))
   \<and> (styleUrlOf f = None \<longrightarrow> style f = defaultStyle)
   \<and> defaultStyle = \<lparr>color = ''#fcb4d4'', weight = 3, opacity = 0.8, fillOpacity = 0.2,
                        fillColor = ''#ffffff''\<rparr>
   \<and> color defaultStyle \<noteq> fillColor defaultStyle"
  by (cases u) (auto simp: style_def defaultStyle_def style007_def style0012_def style00159_def)

theorem style_resolution_witness:
  "style (exampleBoundary (Some ''#PolyStyle0012'')) = style0012
   \<and> style (exampleBoundary (Some ''#PolyStyle007'')) = style007
   \<and> style (exampleBoundary (Some ''#PolyStyle00159'')) = style00159
   \<and> style (exampleBoundary (Some ''#msn_ylw-pushpin'')) = defaultStyle
   \<and> style (exampleBoundary None) = defaultStyle"
proof -
  have a: "styleUrlOf (exampleBoundary r) = r" for r
    by (simp add: styleUrlOf_def exampleBoundary_def)
  have i1: "includes_str ''#PolyStyle0012'' ''PolyStyle0012''"
    and i2: "\<not> includes_str ''#PolyStyle0012'' ''PolyStyle007''"
    and i3: "includes_str ''#PolyStyle007'' ''PolyStyle007''"
    and i4: "includes_str ''#PolyStyle00159'' ''PolyStyle00159''"
    and i5: "\<not> includes_str ''#PolyStyle00159'' ''PolyStyle007''"
    and i6: "\<not> includes_str ''#PolyStyle00159'' ''PolyStyle0012''"
    and i7: "\<not> includes_str ''#msn_ylw-pushpin'' ''PolyStyle007''"
    and i8: "\<not> includes_str ''#msn_ylw-pushpin'' ''PolyStyle0012''"
    and i9: "\<not> includes_str ''#msn_ylw-pushpin'' ''PolyStyle00159''"
    by (simp_all add: startsWith_def)
  show ?thesis
    using style_resolution [of "exampleBoundary (Some ''#PolyStyle0012'')" "''#PolyStyle0012''"]
      style_resolution [of "exampleBoundary (Some ''#PolyStyle007'')" "''#PolyStyle007''"]
      style_resolution [of "exampleBoundary (Some ''#PolyStyle00159'')" "''#PolyStyle00159''"]
      style_resolution [of "exampleBoundary (Some ''#msn_ylw-pushpin'')" "''#msn_ylw-pushpin''"]
      style_resolution [of "exampleBoundary None" "[]"]
    by (simp only: a i1 i2 i3 i4 i5 i6 i7 i8 i9) simp
qed

section \<open>Properties of the proxy endpoint\<close>





section \<open>Properties of fetching and processing\<close>

text \<open>Making the markers fails exactly when a feature has no usable position; when it
  succeeds, the markers show the features' positions and popups, in order.\<close>

lemma geoJSON_markers_fails:
  "(\<exists>e. geoJSON_markers i fs = Inl e) \<longleftrightarrow> \<not> list_all validPoint fs"
proof (induction fs arbitrary: i)
  case Nil
  then show ?case by simp
next
  case (Cons f fs)
  show ?case
  proof (cases "feat_geometry f")
    case None
    then show ?thesis using Cons.IH[of i] by (simp add: validPoint_def)
  next
    case (Some g)
    show ?thesis
    proof (cases "geom_coordinates g")
      case Nil
      then show ?thesis using Some by (simp add: validPoint_def)
    next
      case c1: (Cons lng r)
      show ?thesis
      proof (cases r)
        case Nil
        then show ?thesis using Some c1 by (simp add: validPoint_def)
      next
        case c2: (Cons lat r')
        then show ?thesis
          using Some c1 Cons.IH[of "Suc i"] by (auto simp: validPoint_def split: sum.splits)
      qed
    qed
  qed
qed

lemma geoJSON_markers_shown:
  "geoJSON_markers i fs = Inr ms \<Longrightarrow> list_all isPoint fs \<Longrightarrow>
     map shownAs ms = map annotated fs"
proof (induction fs arbitrary: i ms)
  case Nil
  then show ?case by simp
next
  case (Cons f fs)
  from Cons.prems(2) obtain g where g: "feat_geometry f = Some g"
    by (auto simp: isPoint_def split: option.splits)
  from Cons.prems(1) g obtain lng lat r where c: "geom_coordinates g = lng # lat # r"
    by (cases "geom_coordinates g" rule: coordsToLatLng.cases) auto
  from Cons.prems(1) g c obtain ms' where ms': "geoJSON_markers (Suc i) fs = Inr ms'"
    and ms: "ms = \<lparr>marker_id = i, marker_latlng = (lat, lng), marker_popup = onEachFeature f\<rparr> # ms'"
    by (auto split: sum.splits)
  have "map shownAs ms' = map annotated fs"
    using Cons.IH[OF ms'] Cons.prems(2) by simp
  moreover have "shownAs \<lparr>marker_id = i, marker_latlng = (lat, lng), marker_popup = onEachFeature f\<rparr>
      = annotated f"
    using g c by (simp add: shownAs_def annotated_def positionOf_def)
  ultimately show ?case
    using ms by simp
qed

lemma processKMLText_invalid:
  assumes "parse kmlText = GeoJson fs" and "\<not> list_all validPoint (pointFeatures fs)"
  shows "processKMLText parse i kmlText = None"
proof -
  obtain e where "geoJSON_markers (Suc i) (pointFeatures fs) = Inl e"
    using assms(2) geoJSON_markers_fails by blast
  moreover have "pointFeatures fs \<noteq> []" using assms(2) by auto
  ultimately show ?thesis
    using assms(1) by (simp add: processKMLText_def processKMLText_try_def)
qed

lemma fetchAndProcess_fails:
  "sourceFails parse (fetchProxy u) \<Longrightarrow> fetchAndProcessFireKML parse fetchProxy i u = Inr None"
  by (auto simp: sourceFails_def fetchAndProcessFireKML_def fetchAndProcessFireKML_try_def
      processKMLText_invalid
      split: fetch_result.splits option.splits kml_result.splits)
     (simp_all add: processKMLText_def processKMLText_try_def)

lemma fetchAndProcess_succeeds:
  assumes "\<not> sourceFails parse (fetchProxy u)"
  shows "\<exists>st kmlText fs ms.
           fetchProxy u = FetchResponse st (Some kmlText) \<and> ok st \<and> parse kmlText = GeoJson fs
         \<and> fetchAndProcessFireKML parse fetchProxy i u = Inr (Some \<lparr>layer_id = i, layer_markers = ms\<rparr>)
         \<and> map shownAs ms = map annotated (pointFeatures fs)"
proof -
  from assms obtain st kmlText fs where r: "fetchProxy u = FetchResponse st (Some kmlText)"
    and st: "ok st" and p: "parse kmlText = GeoJson fs"
    and v: "list_all validPoint (pointFeatures fs)"
    by (auto simp: sourceFails_def split: fetch_result.splits option.splits kml_result.splits)
  from v geoJSON_markers_fails[of "Suc i" "pointFeatures fs"]
  obtain ms where ms: "geoJSON_markers (Suc i) (pointFeatures fs) = Inr ms"
    by (cases "geoJSON_markers (Suc i) (pointFeatures fs)") auto
  have sh: "map shownAs ms = map annotated (pointFeatures fs)"
    using geoJSON_markers_shown[OF ms pointFeatures_all] by simp
  have "fetchAndProcessFireKML parse fetchProxy i u = Inr (Some \<lparr>layer_id = i, layer_markers = ms\<rparr>)"
  proof (cases "pointFeatures fs = []")
    case True
    then have "ms = []" using ms by simp
    then show ?thesis
      using r st p True
      by (simp add: fetchAndProcessFireKML_def fetchAndProcessFireKML_try_def
          processKMLText_def processKMLText_try_def)
  next
    case False
    then show ?thesis
      using r st p ms
      by (simp add: fetchAndProcessFireKML_def fetchAndProcessFireKML_try_def
          processKMLText_def processKMLText_try_def)
  qed
  then show ?thesis using r st p sh by blast
qed

lemma sourceFails_iff:
  "sourceFails parse (fetchProxy u) \<longleftrightarrow> fetchAndProcessFireKML parse fetchProxy i u = Inr None"
proof
  assume "sourceFails parse (fetchProxy u)"
  then show "fetchAndProcessFireKML parse fetchProxy i u = Inr None"
    by (rule fetchAndProcess_fails)
next
  assume n: "fetchAndProcessFireKML parse fetchProxy i u = Inr None"
  show "sourceFails parse (fetchProxy u)"
  proof (rule ccontr)
    assume "\<not> sourceFails parse (fetchProxy u)"
    then obtain ms where
      "fetchAndProcessFireKML parse fetchProxy i u = Inr (Some \<lparr>layer_id = i, layer_markers = ms\<rparr>)"
      using fetchAndProcess_succeeds[of parse fetchProxy u i] by blast
    with n show False by simp
  qed
qed

lemma fetchAndProcess_resolves: "\<exists>r. fetchAndProcessFireKML parse fetchProxy i u = Inr r"
  by (simp add: fetchAndProcessFireKML_def split: sum.splits)

lemma fetchAll_resolves:
  "\<exists>rs. fetchAll parse fetchProxy i us = Inr rs \<and> length rs = length us"
proof (induction us arbitrary: i)
  case Nil
  then show ?case by simp
next
  case (Cons u us)
  obtain r where r: "fetchAndProcessFireKML parse fetchProxy i u = Inr r"
    using fetchAndProcess_resolves by blast
  obtain rs where "fetchAll parse fetchProxy (i + stamps r) us = Inr rs \<and> length rs = length us"
    using Cons.IH by blast
  then show ?case using r by simp
qed

lemma updateFireData_resolves:
  "\<exists>w'. updateFireData fireDataLayers urls parse fetchProxy w = Inr w'"
proof (cases "mapRef w")
  case None
  then show ?thesis by (simp add: updateFireData_def)
next
  case (Some m)
  obtain rs where "fetchAll parse fetchProxy (nextId w) urls = Inr rs"
    using fetchAll_resolves by blast
  then show ?thesis using Some by (simp add: updateFireData_def Let_def)
qed

lemma fetchAll_all_fail:
  "\<forall>u \<in> set us. sourceFails parse (fetchProxy u) \<Longrightarrow>
     fetchAll parse fetchProxy i us = Inr (replicate (length us) None)"
  by (induction us arbitrary: i) (simp_all add: fetchAndProcess_fails stamps_def)

lemma validLayers_replicate_None: "validLayers (replicate n None) = []"
  by (induction n) simp_all

lemma markersOn_append: "markersOn (m @ m') = markersOn m @ markersOn m'"
  by (induction m rule: markersOn.induct) simp_all

lemma markersOn_addGroup_empty:
  "markersOn (addGroup \<lparr>group_id = gid, group_layers = []\<rparr> m) = markersOn m"
  by (simp add: addGroup_def markersOn_append)


section \<open>Properties of the reconciler\<close>

text \<open>Fresh stamps: what adding a group does to the map.\<close>

lemma geoJSON_markers_stamped:
  "geoJSON_markers i fs = Inr ms \<Longrightarrow> stampedMarkers i ms"
proof (induction fs arbitrary: i ms)
  case Nil
  then show ?case by simp
next
  case (Cons f fs)
  show ?case
  proof (cases "feat_geometry f")
    case None
    then show ?thesis using Cons by simp
  next
    case (Some g)
    then obtain ll ms' where ms': "geoJSON_markers (Suc i) fs = Inr ms'"
      and ms: "ms = \<lparr>marker_id = i, marker_latlng = ll, marker_popup = onEachFeature f\<rparr> # ms'"
      using Cons.prems by (auto split: sum.splits)
    then show ?thesis using Cons.IH[OF ms'] by simp
  qed
qed

lemma stampedMarkers_bounds:
  "stampedMarkers i ms \<Longrightarrow> mk \<in> set ms \<Longrightarrow> i \<le> marker_id mk \<and> marker_id mk < i + length ms"
  by (induction i ms rule: stampedMarkers.induct) auto

lemma fold_addMarker_fresh:
  "stampedMarkers i ms \<Longrightarrow> idsOutside m i hi \<Longrightarrow> i + length ms \<le> hi \<Longrightarrow>
     fold addMarker ms m = m @ map MarkerObj ms"
proof (induction i ms arbitrary: m rule: stampedMarkers.induct)
  case (1 i)
  then show ?case by simp
next
  case (2 i mk ms)
  have id: "marker_id mk = i" and rest: "stampedMarkers (Suc i) ms"
    using "2.prems"(1) by simp_all
  have nh: "\<not> hasLayer m (marker_id mk)"
    using "2.prems"(2,3) id by (auto simp: hasLayer_def idsOutside_def)
  have o: "idsOutside (m @ [MarkerObj mk]) (Suc i) hi"
    using "2.prems"(2) id by (auto simp: idsOutside_def)
  have a: "addMarker mk m = m @ [MarkerObj mk]"
    using nh by (simp add: addMarker_def)
  have "fold addMarker ms (m @ [MarkerObj mk]) = (m @ [MarkerObj mk]) @ map MarkerObj ms"
    using "2.prems"(3) by (intro "2.IH"[OF rest o]) simp
  then show ?case by (simp add: a)
qed

lemma fetchAndProcess_stamped:
  "fetchAndProcessFireKML parse fetchProxy i u = Inr (Some layer) \<Longrightarrow> wellStamped i layer"
  by (auto simp: fetchAndProcessFireKML_def fetchAndProcessFireKML_try_def processKMLText_def
      processKMLText_try_def wellStamped_def Let_def geoJSON_markers_stamped
      split: fetch_result.splits option.splits kml_result.splits sum.splits if_splits)

lemma fetchAll_stamped:
  "fetchAll parse fetchProxy i us = Inr rs \<Longrightarrow> stampedFrom i rs"
proof (induction us arbitrary: i rs)
  case Nil
  then show ?case by simp
next
  case (Cons u us)
  then obtain r rs' where r: "fetchAndProcessFireKML parse fetchProxy i u = Inr r"
    and rs': "fetchAll parse fetchProxy (i + stamps r) us = Inr rs'" and rs: "rs = r # rs'"
    by (auto split: sum.splits)
  show ?case
  proof (cases r)
    case None
    then show ?thesis using Cons.IH[OF rs'] rs by (simp add: stamps_def)
  next
    case (Some layer)
    then show ?thesis using Cons.IH[OF rs'] rs fetchAndProcess_stamped r by simp
  qed
qed

lemma addGeoJSON_fresh:
  assumes "wellStamped i layer" and "idsOutside m i hi" and "i + stamps (Some layer) \<le> hi"
  shows "addGeoJSON layer m = m @ layerObjects layer"
    and "idsOutside (m @ layerObjects layer) (i + stamps (Some layer)) hi"
proof -
  have id: "layer_id layer = i" and ms: "stampedMarkers (Suc i) (layer_markers layer)"
    using assms(1) by (simp_all add: wellStamped_def)
  have nh: "\<not> hasLayer m (layer_id layer)"
    using assms(2,3) id by (auto simp: hasLayer_def idsOutside_def stamps_def)
  have o: "idsOutside (m @ [GeoJSONObj layer]) (Suc i) hi"
    using assms(2) id by (auto simp: idsOutside_def)
  have "fold addMarker (layer_markers layer) (m @ [GeoJSONObj layer])
      = (m @ [GeoJSONObj layer]) @ map MarkerObj (layer_markers layer)"
    using assms(3) by (intro fold_addMarker_fresh[OF ms o]) (simp add: stamps_def)
  then show "addGeoJSON layer m = m @ layerObjects layer"
    unfolding addGeoJSON_def layerObjects_def using nh by simp
  show "idsOutside (m @ layerObjects layer) (i + stamps (Some layer)) hi"
    using assms(2) id stampedMarkers_bounds[OF ms]
    by (fastforce simp: idsOutside_def layerObjects_def stamps_def)
qed

lemma fold_addGeoJSON_fresh:
  "stampedFrom i rs \<Longrightarrow> idsOutside m i hi \<Longrightarrow> i + sum_list (map stamps rs) \<le> hi \<Longrightarrow>
     fold addGeoJSON (validLayers rs) m = m @ concat (map layerObjects (validLayers rs))"
proof (induction i rs arbitrary: m rule: stampedFrom.induct)
  case (1 i)
  then show ?case by simp
next
  case (2 i rs)
  then show ?case by (simp add: stamps_def)
next
  case (3 i layer rs)
  have a: "addGeoJSON layer m = m @ layerObjects layer"
    and o: "idsOutside (m @ layerObjects layer) (i + stamps (Some layer)) hi"
    using addGeoJSON_fresh[of i layer m hi] "3.prems" by simp_all
  have "fold addGeoJSON (validLayers rs) (m @ layerObjects layer)
      = (m @ layerObjects layer) @ concat (map layerObjects (validLayers rs))"
    using "3.prems" by (intro "3.IH" o) (simp_all add: add.assoc)
  then show ?case using a by simp
qed

lemma markersOn_MarkerObj: "markersOn (map MarkerObj ms) = ms"
  by (induction ms) simp_all

lemma markersOn_layerObjects:
  "markersOn (concat (map layerObjects ls)) = concat (map layer_markers ls)"
  by (induction ls) (simp_all add: markersOn_append layerObjects_def markersOn_MarkerObj)

lemma addGroup_fresh:
  assumes "stampedFrom i rs" and "idsBelow m i"
  shows "addGroup \<lparr>group_id = i + sum_list (map stamps rs), group_layers = validLayers rs\<rparr> m
           = m @ GroupObj \<lparr>group_id = i + sum_list (map stamps rs), group_layers = validLayers rs\<rparr>
               # concat (map layerObjects (validLayers rs))"
proof -
  let ?gid = "i + sum_list (map stamps rs)"
  let ?g = "\<lparr>group_id = ?gid, group_layers = validLayers rs\<rparr>"
  have nh: "\<not> hasLayer m ?gid"
    using assms(2) by (fastforce simp: hasLayer_def idsBelow_def)
  have o: "idsOutside (m @ [GroupObj ?g]) i ?gid"
    using assms(2) by (auto simp: idsOutside_def idsBelow_def)
  have "fold addGeoJSON (validLayers rs) (m @ [GroupObj ?g])
      = (m @ [GroupObj ?g]) @ concat (map layerObjects (validLayers rs))"
    by (intro fold_addGeoJSON_fresh[OF assms(1) o]) simp
  then show ?thesis unfolding addGroup_def using nh by simp
qed


lemma layerObjects_bounds:
  "stampedFrom i rs \<Longrightarrow> o' \<in> set (concat (map layerObjects (validLayers rs))) \<Longrightarrow>
     i \<le> obj_id o' \<and> obj_id o' < i + sum_list (map stamps rs)"
proof (induction i rs rule: stampedFrom.induct)
  case (1 i)
  then show ?case by simp
next
  case (2 i rs)
  then show ?case by (simp add: stamps_def)
next
  case (3 i layer rs)
  have id: "layer_id layer = i" and ms: "stampedMarkers (Suc i) (layer_markers layer)"
    using "3.prems"(1) by (simp_all add: wellStamped_def)
  from "3.prems"(2) consider "o' \<in> set (layerObjects layer)"
    | "o' \<in> set (concat (map layerObjects (validLayers rs)))" by auto
  then show ?case
  proof cases
    case 1
    then show ?thesis
      using id stampedMarkers_bounds[OF ms] by (fastforce simp: layerObjects_def stamps_def)
  next
    case 2
    then have "i + stamps (Some layer) \<le> obj_id o'
        \<and> obj_id o' < i + stamps (Some layer) + sum_list (map stamps rs)"
      using "3.IH" "3.prems"(1) by simp
    then show ?thesis by simp
  qed
qed

lemma removeMarker_subset: "set (removeMarker mk m) \<subseteq> set m"
  by (auto simp: removeMarker_def deleteLayer_def)

lemma fold_removeMarker_subset: "set (fold removeMarker ms m) \<subseteq> set m"
proof (induction ms arbitrary: m)
  case Nil
  then show ?case by simp
next
  case (Cons mk ms)
  have "set (fold removeMarker ms (removeMarker mk m)) \<subseteq> set (removeMarker mk m)"
    by (rule Cons.IH)
  then show ?case using removeMarker_subset[of mk m] by auto
qed

lemma idsBelow_removeGeoJSON: "idsBelow m n \<Longrightarrow> idsBelow (removeGeoJSON g m) n"
  using fold_removeMarker_subset[of "layer_markers g" m]
  by (auto simp: idsBelow_def removeGeoJSON_def deleteLayer_def)

lemma mapRef_fold_removeOldLayer:
  "mapRef (fold removeOldLayer ls w) = map_option (fold removeGeoJSON ls) (mapRef w)"
proof (induction ls arbitrary: w)
  case Nil
  then show ?case by (cases "mapRef w") simp_all
next
  case (Cons l ls)
  then show ?case by (cases "mapRef w") (simp_all add: removeOldLayer_def)
qed

lemma idsBelow_fold_removeGeoJSON: "idsBelow m n \<Longrightarrow> idsBelow (fold removeGeoJSON ls m) n"
  by (induction ls arbitrary: m) (simp_all add: idsBelow_removeGeoJSON)

lemma nextId_fold_removeOldLayer: "nextId (fold removeOldLayer ls w) = nextId w"
  by (induction ls arbitrary: w) (simp_all add: removeOldLayer_def)

text \<open>A call of \<open>updateFireData\<close> on a state whose stamps are all below the next one: the
  markers of the new layers are appended to those left on the map, and the stamps stay below.\<close>

lemma updateFireData_markers:
  assumes "mapRef w = Some m" and "idsBelow m (nextId w)"
    and "fetchAll parse fetchProxy (nextId w) urls = Inr rs"
  shows "\<exists>w' m'. updateFireData fireDataLayers urls parse fetchProxy w = Inr w'
           \<and> mapRef w' = Some m'
           \<and> markersOn m' = markersOn (fold removeGeoJSON fireDataLayers m)
               @ concat (map layer_markers (validLayers rs))
           \<and> idsBelow m' (nextId w')"
proof -
  let ?m1 = "fold removeGeoJSON fireDataLayers m"
  let ?gid = "nextId w + sum_list (map stamps rs)"
  let ?g = "\<lparr>group_id = ?gid, group_layers = validLayers rs\<rparr>"
  have st: "stampedFrom (nextId w) rs" using fetchAll_stamped[OF assms(3)] .
  have b1: "idsBelow ?m1 (nextId w)" using assms(2) by (rule idsBelow_fold_removeGeoJSON)
  have ag: "addGroup ?g ?m1 = ?m1 @ GroupObj ?g # concat (map layerObjects (validLayers rs))"
    using addGroup_fresh[OF st b1] .
  have m1: "mapRef (fold removeOldLayer fireDataLayers w) = Some ?m1"
    using assms(1) by (simp add: mapRef_fold_removeOldLayer)
  have u: "updateFireData fireDataLayers urls parse fetchProxy w
      = Inr ((fold removeOldLayer fireDataLayers w)
          \<lparr>mapRef := Some (addGroup ?g ?m1),
            layersControlRef := map_option (addOverlay ?gid fireOverlayName)
              (layersControlRef (fold removeOldLayer fireDataLayers w)),
            fireDataLayersState := validLayers rs, nextId := Suc ?gid\<rparr>)"
    using assms(1,3) m1 by (simp add: updateFireData_def Let_def)
  have mk: "markersOn (addGroup ?g ?m1) = markersOn ?m1 @ concat (map layer_markers (validLayers rs))"
    unfolding ag by (simp add: markersOn_append markersOn_layerObjects)
  have bl: "idsBelow (addGroup ?g ?m1) (Suc ?gid)"
    unfolding ag using b1 layerObjects_bounds[OF st]
    by (fastforce simp: idsBelow_def)
  show ?thesis using u mk bl by simp
qed

text \<open>The scheduled cycles never take a marker off the map.\<close>

lemma reconcile_keeps_markers:
  assumes "mapRef w = Some m" and "idsBelow m (nextId w)"
  shows "\<exists>w' m'. reconcile parse fetchProxy w = Inr w' \<and> mapRef w' = Some m'
           \<and> idsBelow m' (nextId w') \<and> prefix (markersOn m) (markersOn m')"
proof -
  obtain rs where rs: "fetchAll parse fetchProxy (nextId w) inpeUrls = Inr rs"
    using fetchAll_resolves by blast
  from updateFireData_markers[OF assms rs, of "[]"]
  show ?thesis by (auto simp: reconcile_def initialFireDataLayers_def)
qed

lemma cycles_keep_markers:
  "mapRef w = Some m \<Longrightarrow> idsBelow m (nextId w) \<Longrightarrow>
     prefix (markersShown w) (markersShown (cycles parse fs w))"
proof (induction fs arbitrary: w m)
  case Nil
  then show ?case by simp
next
  case (Cons f fs)
  obtain w' m' where w': "reconcile parse f w = Inr w'" "mapRef w' = Some m'"
      "idsBelow m' (nextId w')" "prefix (markersOn m) (markersOn m')"
    using reconcile_keeps_markers[OF Cons.prems] by blast
  have "prefix (markersShown w') (markersShown (cycles parse fs w'))"
    using Cons.IH[OF w'(2,3)] .
  then show ?case
    using w' Cons.prems(1) by (auto simp: markersShown_def intro: prefix_order.trans)
qed

text \<open>What a scheduled cycle does to the state when the map exists: nothing is removed
  (the closure's list of old layers is empty), and a new group is put on the map and
  registered in the control.\<close>

lemma reconcile_result:
  assumes "mapRef w = Some m"
  shows "\<exists>rs. fetchAll parse fetchProxy (nextId w) inpeUrls = Inr rs
     \<and> reconcile parse fetchProxy w =
         Inr \<lparr>mapRef = Some (addGroup \<lparr>group_id = nextId w + sum_list (map stamps rs),
                                       group_layers = validLayers rs\<rparr> m),
              layersControlRef =
                map_option (addOverlay (nextId w + sum_list (map stamps rs)) fireOverlayName)
                  (layersControlRef w),
              fireDataLayersState = validLayers rs,
              nextId = Suc (nextId w + sum_list (map stamps rs))\<rparr>"
proof -
  obtain rs where rs: "fetchAll parse fetchProxy (nextId w) inpeUrls = Inr rs"
    using fetchAll_resolves by blast
  then show ?thesis
    using assms by (simp add: reconcile_def updateFireData_def initialFireDataLayers_def Let_def)
qed

lemma fireEntries_addOverlay:
  "fireEntries (w\<lparr>layersControlRef := Some (addOverlay i fireOverlayName c)\<rparr>)
     = filter (\<lambda>e. entry_overlay e \<and> entry_name e = fireOverlayName) c
       @ [\<lparr>entry_layer = i, entry_name = fireOverlayName, entry_overlay = True\<rparr>]"
  by (simp add: fireEntries_def addOverlay_def)

lemma reconcile_adds_entry:
  assumes "mapRef w = Some m" and "layersControlRef w = Some c"
  shows "\<exists>w' m' c'. reconcile parse fetchProxy w = Inr w' \<and> mapRef w' = Some m'
           \<and> layersControlRef w' = Some c'
           \<and> length (fireEntries w') = Suc (length (fireEntries w))"
proof -
  obtain rs where "reconcile parse fetchProxy w =
         Inr \<lparr>mapRef = Some (addGroup \<lparr>group_id = nextId w + sum_list (map stamps rs),
                                       group_layers = validLayers rs\<rparr> m),
              layersControlRef =
                map_option (addOverlay (nextId w + sum_list (map stamps rs)) fireOverlayName)
                  (layersControlRef w),
              fireDataLayersState = validLayers rs,
              nextId = Suc (nextId w + sum_list (map stamps rs))\<rparr>"
    using reconcile_result[OF assms(1)] by blast
  then show ?thesis
    using assms(2) by (simp add: fireEntries_def addOverlay_def)
qed

lemma cycles_entries:
  "mapRef w = Some m \<Longrightarrow> layersControlRef w = Some c \<Longrightarrow>
     length (fireEntries (cycles parse fs w)) = length (fireEntries w) + length fs"
proof (induction fs arbitrary: w m c)
  case Nil
  then show ?case by simp
next
  case (Cons f fs)
  obtain w' m' c' where w': "reconcile parse f w = Inr w'" "mapRef w' = Some m'"
      "layersControlRef w' = Some c'" "length (fireEntries w') = Suc (length (fireEntries w))"
    using reconcile_adds_entry[OF Cons.prems] by blast
  then show ?case using Cons.IH[OF w'(2,3)] by simp
qed

lemmas example_defs =
  mounted_def inpeUrls_def firstSourceDelivers_def exampleParse_def examplePoint_def
  noProperties_def exampleMarker_def exampleWorld_def allRejected_def

lemmas reconcile_defs =
  reconcile_def updateFireData_def initialFireDataLayers_def
  fetchAndProcessFireKML_def fetchAndProcessFireKML_try_def processKMLText_def
  processKMLText_try_def isPoint_def ok_def stamps_def onEachFeature_def annotate_def
  popupContent_def popupLine_def addGroup_def addGeoJSON_def addMarker_def hasLayer_def
  addOverlay_def Let_def

lemma cycles_step: "cycles parse (f # fs) w = cycles parse fs (cycles parse [f] w)"
  by (simp split: sum.splits)

lemma first_cycle:
  "cycles exampleParse [firstSourceDelivers ''<kml><Placemark/></kml>''] mounted = exampleWorld"
  by (simp add: example_defs reconcile_defs)

text \<open>
  Claim C1 fails on the code. Every completed cycle appends an entry named for the
  hotspot overlay to the layers control and removes none, so after the cycles of \<open>fs\<close>
  the control holds as many such entries as cycles have run: two after the second cycle,
  not one. The loop of lines 169-174 is meant to remove the old entry, as the comment
  above it says, but the closure that runs sees an empty list, and the control knows the
  overlay by its group, which is never handed to \<^verbatim>\<open>removeLayer\<close>.
\<close>

theorem hotspot_entries_accumulate:
  "length (fireEntries (cycles parse fs mounted)) = length fs
   \<and> length (fireEntries (cycles parse [f1, f2] mounted)) = 2"
proof -
  have m: "mapRef mounted = Some [OtherLayer 1]" by (simp add: mounted_def)
  obtain c where c: "layersControlRef mounted = Some c" by (simp add: mounted_def)
  have "fireEntries mounted = []"
    by (simp add: fireEntries_def mounted_def fireOverlayName_def)
  then show ?thesis
    using cycles_entries[OF m c, of parse fs] cycles_entries[OF m c, of parse "[f1, f2]"]
    by simp
qed

text \<open>
  For comparison, a call whose closure did hold the layers of the cycle before: the
  markers of those layers leave the map, but the entry of the old group stays in the
  control, since the control was given the group and is asked to remove the layers.
\<close>

lemma previous_layers_example:
  "(case updateFireData (fireDataLayersState exampleWorld) inpeUrls exampleParse allRejected
          exampleWorld of
      Inl e \<Rightarrow> None
    | Inr w \<Rightarrow> Some (length (fireEntries w), markersShown w))
   = Some (2, [])"
  by (simp add: example_defs reconcile_defs removeOldLayer_def removeGeoJSON_def
      removeMarker_def deleteLayer_def fireEntries_def markersShown_def fireOverlayName_def
      e_circumflex_def)

lemma reconcile_all_fail:
  assumes "\<forall>u \<in> set inpeUrls. sourceFails parse (fetchProxy u)" and "mapRef w = Some m"
  shows "reconcile parse fetchProxy w =
         Inr \<lparr>mapRef = Some (addGroup \<lparr>group_id = nextId w, group_layers = []\<rparr> m),
              layersControlRef = map_option (addOverlay (nextId w) fireOverlayName) (layersControlRef w),
              fireDataLayersState = [],
              nextId = Suc (nextId w)\<rparr>"
proof -
  have "fetchAll parse fetchProxy (nextId w) inpeUrls = Inr (replicate (length inpeUrls) None)"
    using assms(1) by (rule fetchAll_all_fail)
  moreover have "stamps None = 0"
    by (simp add: stamps_def)
  ultimately show ?thesis
    using assms(2)
    by (simp add: reconcile_def updateFireData_def initialFireDataLayers_def Let_def
        validLayers_replicate_None sum_list_replicate)
qed

text \<open>
  Claim C2. When every source fails in a cycle, the cycle completes and the markers on the
  map are those that were on it before; every object that was on the map is still on
  it (the cycle only adds an empty group). In general, a call on total failure leaves on
  the map the markers that its removal loop leaves, and the loop of the closure that is
  scheduled has nothing to remove.
\<close>

theorem total_failure_keeps_overlay:
  assumes "\<forall>u \<in> set inpeUrls. sourceFails parse (fetchProxy u)"
  shows "(\<exists>w'. reconcile parse fetchProxy w = Inr w'
           \<and> markersShown w' = markersShown w
           \<and> (\<forall>m. mapRef w = Some m \<longrightarrow> (\<exists>m'. mapRef w' = Some m' \<and> prefix m m')))
       \<and> (\<forall>fireDataLayers m. mapRef w = Some m \<longrightarrow>
            (\<exists>w'. updateFireData fireDataLayers inpeUrls parse fetchProxy w = Inr w'
               \<and> markersShown w' = markersOn (fold removeGeoJSON fireDataLayers m)))"
proof
  show "\<exists>w'. reconcile parse fetchProxy w = Inr w'
           \<and> markersShown w' = markersShown w
           \<and> (\<forall>m. mapRef w = Some m \<longrightarrow> (\<exists>m'. mapRef w' = Some m' \<and> prefix m m'))"
  proof (cases "mapRef w")
    case None
    then show ?thesis
      by (simp add: reconcile_def updateFireData_def)
  next
    case (Some m)
    have "prefix m (addGroup \<lparr>group_id = nextId w, group_layers = []\<rparr> m)"
      by (simp add: addGroup_def)
    then show ?thesis
      using reconcile_all_fail[OF assms Some] Some markersOn_addGroup_empty[of "nextId w" m]
      by (simp add: markersShown_def)
  qed
  show "\<forall>fireDataLayers m. mapRef w = Some m \<longrightarrow>
            (\<exists>w'. updateFireData fireDataLayers inpeUrls parse fetchProxy w = Inr w'
               \<and> markersShown w' = markersOn (fold removeGeoJSON fireDataLayers m))"
  proof (intro allI impI)
    fix fireDataLayers m
    assume m: "mapRef w = Some m"
    have f: "fetchAll parse fetchProxy (nextId w) inpeUrls = Inr (replicate (length inpeUrls) None)"
      using assms by (rule fetchAll_all_fail)
    have s: "stamps None = 0" by (simp add: stamps_def)
    have m1: "mapRef (fold removeOldLayer fireDataLayers w)
        = Some (fold removeGeoJSON fireDataLayers m)"
      using m by (simp add: mapRef_fold_removeOldLayer)
    show "\<exists>w'. updateFireData fireDataLayers inpeUrls parse fetchProxy w = Inr w'
               \<and> markersShown w' = markersOn (fold removeGeoJSON fireDataLayers m)"
      using m f s m1
      by (simp add: updateFireData_def Let_def validLayers_replicate_None sum_list_replicate
          markersShown_def markersOn_addGroup_empty)
  qed
qed

theorem total_failure_keeps_overlay_witness:
  "markersShown (cycles exampleParse
      [firstSourceDelivers ''<kml><Placemark/></kml>'', allRejected] mounted) = [exampleMarker]"
proof -
  have h: "\<forall>u \<in> set inpeUrls. sourceFails exampleParse (allRejected u)"
    by (simp add: sourceFails_def allRejected_def)
  from total_failure_keeps_overlay[OF h, of exampleWorld]
  obtain w' where "reconcile exampleParse allRejected exampleWorld = Inr w'"
    and "markersShown w' = markersShown exampleWorld" by blast
  then have "markersShown (cycles exampleParse [allRejected] exampleWorld) = markersShown exampleWorld"
    by simp
  moreover have "markersShown exampleWorld = [exampleMarker]"
    by (simp add: exampleWorld_def markersShown_def)
  moreover have "cycles exampleParse [firstSourceDelivers ''<kml><Placemark/></kml>'', allRejected] mounted
      = cycles exampleParse [allRejected] exampleWorld"
    by (subst cycles_step) (simp only: first_cycle)
  ultimately show ?thesis by simp
qed

lemma fetchAll_one_success:
  assumes "\<forall>u \<in> set before \<union> set after. sourceFails parse (fetchProxy u)"
    and "fetchAndProcessFireKML parse fetchProxy i a = Inr (Some layer)"
  shows "fetchAll parse fetchProxy i (before @ a # after)
           = Inr (replicate (length before) None @ Some layer # replicate (length after) None)"
  using assms
proof (induction before)
  case Nil
  then show ?case by (simp add: fetchAll_all_fail)
next
  case (Cons b before)
  then show ?case by (simp add: fetchAndProcess_fails stamps_def)
qed

lemma validLayers_append: "validLayers (rs @ rs') = validLayers rs @ validLayers rs'"
  by (induction rs rule: validLayers.induct) simp_all

text \<open>
  Claim C3. When the source \<open>a\<close> succeeds and all the other sources of the cycle fail (be
  it the fetch, the status, the body, the parse or a position), the call resolves, with no
  exception escaping; the new layers are exactly the one layer of \<open>a\<close>, whose markers are
  the annotated point features of the document of \<open>a\<close>, and the group put on the map holds
  that layer alone; on a map whose stamps are below the next one, the markers of that
  layer are the markers the call adds. Two sources in either order are the cases where
  one of \<open>before\<close> and \<open>after\<close> is empty and the other is the failing source.
\<close>

theorem fail_soft_aggregation:
  assumes "mapRef w = Some m"
    and "\<not> sourceFails parse (fetchProxy a)"
    and "\<forall>u \<in> set before \<union> set after. sourceFails parse (fetchProxy u)"
  shows "\<exists>st kmlText fs layerA w'.
           fetchProxy a = FetchResponse st (Some kmlText) \<and> ok st \<and> parse kmlText = GeoJson fs
         \<and> map shownAs (layer_markers layerA)
             = map annotated (pointFeatures fs)
         \<and> updateFireData fireDataLayers (before @ a # after) parse fetchProxy w = Inr w'
         \<and> fireDataLayersState w' = [layerA]
         \<and> mapRef w' = map_option
               (addGroup \<lparr>group_id = nextId w + stamps (Some layerA), group_layers = [layerA]\<rparr>)
               (mapRef (fold removeOldLayer fireDataLayers w))
         \<and> (idsBelow m (nextId w) \<longrightarrow>
               markersShown w' = markersOn (fold removeGeoJSON fireDataLayers m)
                                  @ layer_markers layerA)"
proof -
  obtain st kmlText fs ms where a: "fetchProxy a = FetchResponse st (Some kmlText)" "ok st"
      "parse kmlText = GeoJson fs"
      "fetchAndProcessFireKML parse fetchProxy (nextId w) a
         = Inr (Some \<lparr>layer_id = nextId w, layer_markers = ms\<rparr>)"
      "map shownAs ms = map annotated (pointFeatures fs)"
    using fetchAndProcess_succeeds[of parse fetchProxy a "nextId w"] assms(2) by blast
  let ?l = "\<lparr>layer_id = nextId w, layer_markers = ms\<rparr>"
  let ?rs = "replicate (length before) None @ Some ?l # replicate (length after) None"
  let ?w1 = "fold removeOldLayer fireDataLayers w"
  have f: "fetchAll parse fetchProxy (nextId w) (before @ a # after) = Inr ?rs"
    using fetchAll_one_success[OF assms(3) a(4)] .
  have v: "validLayers ?rs = [?l]"
    by (simp add: validLayers_append validLayers_replicate_None)
  have s: "stamps None = 0"
    by (simp add: stamps_def)
  have u: "updateFireData fireDataLayers (before @ a # after) parse fetchProxy w =
          Inr (?w1\<lparr>mapRef := map_option (addGroup \<lparr>group_id = nextId w + stamps (Some ?l),
                                          group_layers = [?l]\<rparr>) (mapRef ?w1),
                 layersControlRef :=
                   map_option (addOverlay (nextId w + stamps (Some ?l)) fireOverlayName)
                     (layersControlRef ?w1),
                 fireDataLayersState := [?l],
                 nextId := Suc (nextId w + stamps (Some ?l))\<rparr>)"
    using assms(1) f v s
    by (simp add: updateFireData_def Let_def sum_list_replicate del: validLayers.simps)
  moreover have "idsBelow m (nextId w) \<longrightarrow>
      markersShown (?w1\<lparr>mapRef := map_option (addGroup \<lparr>group_id = nextId w + stamps (Some ?l),
                                          group_layers = [?l]\<rparr>) (mapRef ?w1),
                 layersControlRef :=
                   map_option (addOverlay (nextId w + stamps (Some ?l)) fireOverlayName)
                     (layersControlRef ?w1),
                 fireDataLayersState := [?l],
                 nextId := Suc (nextId w + stamps (Some ?l))\<rparr>)
        = markersOn (fold removeGeoJSON fireDataLayers m) @ layer_markers ?l"
  proof
    assume b: "idsBelow m (nextId w)"
    obtain w' m' where w': "updateFireData fireDataLayers (before @ a # after) parse fetchProxy w = Inr w'"
        "mapRef w' = Some m'"
        "markersOn m' = markersOn (fold removeGeoJSON fireDataLayers m)
               @ concat (map layer_markers (validLayers ?rs))"
      using updateFireData_markers[OF assms(1) b f] by blast
    then show "markersShown (?w1\<lparr>mapRef := map_option (addGroup \<lparr>group_id = nextId w + stamps (Some ?l),
                                          group_layers = [?l]\<rparr>) (mapRef ?w1),
                 layersControlRef :=
                   map_option (addOverlay (nextId w + stamps (Some ?l)) fireOverlayName)
                     (layersControlRef ?w1),
                 fireDataLayersState := [?l],
                 nextId := Suc (nextId w + stamps (Some ?l))\<rparr>)
        = markersOn (fold removeGeoJSON fireDataLayers m) @ layer_markers ?l"
      using u v by (simp add: markersShown_def del: validLayers.simps)
  qed
  ultimately show ?thesis
    using a(1,2,3,5)
    by (intro exI[of _ st] exI[of _ kmlText] exI[of _ fs] exI[of _ ?l]) auto
qed

theorem fail_soft_aggregation_witness:
  "\<exists>w'. updateFireData [] [inpeUrls ! 0, inpeUrls ! 1] exampleParse
            (firstSourceDelivers ''<kml><Placemark/></kml>'') mounted = Inr w'
        \<and> map (\<lambda>layer. map shownAs (layer_markers layer)) (fireDataLayersState w')
            = [[(Some (-12.5, -55.7), Some (''<b>'' @ defaultLabel @ ''</b>''))]]
        \<and> map shownAs (markersShown w')
            = [(Some (-12.5, -55.7), Some (''<b>'' @ defaultLabel @ ''</b>''))]"
proof -
  let ?F = "firstSourceDelivers ''<kml><Placemark/></kml>''"
  have h1: "mapRef mounted = Some [OtherLayer 1]" by (simp add: mounted_def)
  have h2: "\<not> sourceFails exampleParse (?F (inpeUrls ! 0))"
    by (simp add: sourceFails_def example_defs ok_def isPoint_def validPoint_def)
  have h3: "\<forall>u \<in> set [] \<union> set [inpeUrls ! 1]. sourceFails exampleParse (?F u)"
    by (simp add: sourceFails_def example_defs)
  have h4: "idsBelow [OtherLayer 1] (nextId mounted)"
    by (simp add: idsBelow_def mounted_def)
  from fail_soft_aggregation[OF h1 h2 h3, of "[]"] h4
  obtain st kmlText fs layerA w' where r: "?F (inpeUrls ! 0) = FetchResponse st (Some kmlText)"
      "exampleParse kmlText = GeoJson fs"
      "map shownAs (layer_markers layerA) = map annotated (pointFeatures fs)"
      "updateFireData [] ([] @ inpeUrls ! 0 # [inpeUrls ! 1]) exampleParse ?F mounted = Inr w'"
      "fireDataLayersState w' = [layerA]"
      "markersShown w' = markersOn (fold removeGeoJSON [] [OtherLayer 1]) @ layer_markers layerA"
    by blast
  from r(1) have "kmlText = ''<kml><Placemark/></kml>''"
    by (simp add: firstSourceDelivers_def)
  with r(2) have "fs = [examplePoint (-12.5) (-55.7) (Some noProperties)]"
    by (simp add: exampleParse_def)
  with r(3) have "map shownAs (layer_markers layerA)
      = [(Some (-12.5, -55.7), Some (''<b>'' @ defaultLabel @ ''</b>''))]"
    by (simp add: examplePoint_def noProperties_def isPoint_def positionOf_def onEachFeature_def
        annotate_def popupContent_def popupLine_def annotated_def)
  with r(4,5,6) show ?thesis by simp
qed

text \<open>A successful fetch whose document has no point feature yields a valid empty layer,
  whereas a failure yields \<^verbatim>\<open>null\<close>.\<close>

lemma empty_result_and_failure:
  "(fetchProxy u = FetchResponse st (Some kmlText) \<and> ok st \<and> parse kmlText = GeoJson fs
      \<and> pointFeatures fs = [] \<longrightarrow>
        fetchAndProcessFireKML parse fetchProxy i u = Inr (Some \<lparr>layer_id = i, layer_markers = []\<rparr>))
   \<and> (sourceFails parse (fetchProxy u) \<longrightarrow>
        fetchAndProcessFireKML parse fetchProxy i u = Inr None)"
  by (simp add: fetchAndProcess_fails)
     (simp add: fetchAndProcessFireKML_def fetchAndProcessFireKML_try_def processKMLText_def
       processKMLText_try_def)

text \<open>
  Claim C4 fails on the code. The component is mounted; in the first cycle the first
  source delivers a document with one hotspot, which leaves the state \<open>exampleWorld\<close> with
  that hotspot's marker on the map; in the second cycle the same source is fetched with
  success and its document has no point feature, so its result is a valid empty layer.
  After the second cycle the marker of the first cycle is still on the map: the empty
  result has not replaced the source's previous markers with none. The cause is the
  removal loop of lines 168-174, which is meant to take the old layers off the map and
  runs over the empty list of the first render's closure, the defect of claim C1.
\<close>

theorem empty_refresh_keeps_markers:
  "cycles exampleParse [firstSourceDelivers ''<kml><Placemark/></kml>''] mounted = exampleWorld
   \<and> markersShown exampleWorld = [exampleMarker]
   \<and> fetchAndProcessFireKML exampleParse (firstSourceDelivers ''<kml/>'') (nextId exampleWorld)
        (inpeUrls ! 0) = Inr (Some \<lparr>layer_id = 6, layer_markers = []\<rparr>)
   \<and> markersShown
        (cycles exampleParse
          [firstSourceDelivers ''<kml><Placemark/></kml>'', firstSourceDelivers ''<kml/>'']
          mounted)
        = [exampleMarker]"
proof -
  have 1: "cycles exampleParse [firstSourceDelivers ''<kml><Placemark/></kml>''] mounted
      = exampleWorld"
    by (rule first_cycle)
  have 2: "markersShown exampleWorld = [exampleMarker]"
    by (simp add: exampleWorld_def markersShown_def)
  have 3: "fetchAndProcessFireKML exampleParse (firstSourceDelivers ''<kml/>'')
      (nextId exampleWorld) (inpeUrls ! 0) = Inr (Some \<lparr>layer_id = 6, layer_markers = []\<rparr>)"
    by (simp add: example_defs reconcile_defs)
  have "markersShown (cycles exampleParse [firstSourceDelivers ''<kml/>''] exampleWorld)
      = [exampleMarker]"
    by (simp add: example_defs reconcile_defs markersShown_def)
  moreover have "cycles exampleParse
      [firstSourceDelivers ''<kml><Placemark/></kml>'', firstSourceDelivers ''<kml/>''] mounted
      = cycles exampleParse [firstSourceDelivers ''<kml/>''] exampleWorld"
    by (subst cycles_step) (simp only: first_cycle)
  ultimately show ?thesis using 1 2 3 by simp
qed

section \<open>Properties of the refresh scheduler\<close>

lemma advanceTo_unarmed:
  "intervalDue s = None \<Longrightarrow> advanceTo t s = s\<lparr>clock := max (clock s) t\<rparr>"
  by (subst advanceTo.simps) simp

lemma advanceTo_not_due:
  "intervalDue s = Some due \<Longrightarrow> t < due \<Longrightarrow> advanceTo t s = s\<lparr>clock := max (clock s) t\<rparr>"
  by (subst advanceTo.simps) simp

lemma advanceTo_due:
  "intervalDue s = Some due \<Longrightarrow> due \<le> t \<Longrightarrow> advanceTo t s = advanceTo t (fire due s)"
  by (subst advanceTo.simps) simp

lemma advanceTo_periods:
  "intervalDue s = Some due \<Longrightarrow> r < REFRESH_INTERVAL \<Longrightarrow>
   invocations (advanceTo (due + n * REFRESH_INTERVAL + r) s)
     = invocations s @ map (\<lambda>k. due + k * REFRESH_INTERVAL) [0..<Suc n]"
proof (induction n arbitrary: s due)
  case 0
  have "advanceTo (due + r) s = advanceTo (due + r) (fire due s)"
    using 0 by (simp add: advanceTo_due)
  also have "\<dots> = (fire due s)\<lparr>clock := max (clock (fire due s)) (due + r)\<rparr>"
    using 0 by (intro advanceTo_not_due[where due = "due + REFRESH_INTERVAL"]) (simp_all add: fire_def)
  finally show ?case by (simp add: fire_def)
next
  case (Suc n)
  let ?t = "due + Suc n * REFRESH_INTERVAL + r"
  have t: "?t = (due + REFRESH_INTERVAL) + n * REFRESH_INTERVAL + r" by simp
  have "advanceTo ?t s = advanceTo ?t (fire due s)"
    using Suc.prems by (simp add: advanceTo_due)
  moreover have "invocations (advanceTo ?t (fire due s))
      = invocations (fire due s) @ map (\<lambda>k. (due + REFRESH_INTERVAL) + k * REFRESH_INTERVAL) [0..<Suc n]"
    unfolding t using Suc.prems by (intro Suc.IH) (simp_all add: fire_def)
  moreover have "map (\<lambda>k. due + k * REFRESH_INTERVAL) [0..<Suc (Suc n)]
      = due # map (\<lambda>k. (due + REFRESH_INTERVAL) + k * REFRESH_INTERVAL) [0..<Suc n]"
    by (simp only: upt_conv_Cons[of 0 "Suc (Suc n)"] map_Suc_upt[symmetric]) (simp add: comp_def)
  ultimately show ?case by (simp add: fire_def)
qed

lemma mount_invocations:
  assumes "r < REFRESH_INTERVAL"
  shows "invocations (advanceTo (n * REFRESH_INTERVAL + r) (effect True unmounted))
     = map (\<lambda>k. k * REFRESH_INTERVAL) [0..<Suc n]"
proof (cases n)
  case 0
  have "advanceTo r (effect True unmounted)
      = (effect True unmounted)\<lparr>clock := max (clock (effect True unmounted)) r\<rparr>"
    using assms by (intro advanceTo_not_due[where due = REFRESH_INTERVAL])
      (simp_all add: effect_def unmounted_def)
  then show ?thesis using 0 by (simp add: effect_def unmounted_def)
next
  case (Suc k)
  have d: "intervalDue (effect True unmounted) = Some REFRESH_INTERVAL"
    by (simp add: effect_def unmounted_def)
  have "n * REFRESH_INTERVAL + r = REFRESH_INTERVAL + k * REFRESH_INTERVAL + r"
    using Suc by simp
  then have "invocations (advanceTo (n * REFRESH_INTERVAL + r) (effect True unmounted))
      = invocations (effect True unmounted)
        @ map (\<lambda>j. REFRESH_INTERVAL + j * REFRESH_INTERVAL) [0..<Suc k]"
    using advanceTo_periods[OF d assms, of k] by simp
  moreover have "map (\<lambda>j. j * REFRESH_INTERVAL) [0..<Suc n]
      = 0 # map (\<lambda>j. REFRESH_INTERVAL + j * REFRESH_INTERVAL) [0..<Suc k]"
    unfolding Suc
    by (simp only: upt_conv_Cons[of 0 "Suc (Suc k)"] map_Suc_upt[symmetric]) (simp add: comp_def)
  ultimately show ?thesis by (simp add: effect_def unmounted_def)
qed

text \<open>
  Claim C10. The period is 600 000 ms. After mounting at time 0, when the simulated clock
  has run for \<open>n\<close> full periods (and less than one more), the reconciler has been invoked at
  the times 0, 600 000, ..., \<open>n\<close> times 600 000: once at mount and once for each elapsed
  period, which makes one plus three invocations over three periods. After teardown no
  further invocation happens, however long the clock runs, also when the effect is run
  again.
\<close>

theorem scheduler_cadence:
  "REFRESH_INTERVAL = 600000
   \<and> (r < REFRESH_INTERVAL \<longrightarrow>
        invocations (advanceTo (n * REFRESH_INTERVAL + r) (effect True unmounted))
          = map (\<lambda>k. k * REFRESH_INTERVAL) [0..<Suc n])
   \<and> length (invocations (advanceTo (3 * REFRESH_INTERVAL) (effect True unmounted))) = 1 + 3
   \<and> invocations (advanceTo t (cleanup s)) = invocations s
   \<and> (mapCreated s \<longrightarrow> invocations (advanceTo t (effect c (cleanup s))) = invocations s)"
proof -
  have p: "0 < REFRESH_INTERVAL" by (simp add: REFRESH_INTERVAL_def)
  have "length (invocations (advanceTo (3 * REFRESH_INTERVAL + 0) (effect True unmounted))) = 4"
    by (subst mount_invocations[OF p]) simp
  moreover have "invocations (advanceTo t (cleanup s)) = invocations s"
    by (simp add: advanceTo_unarmed cleanup_def)
  moreover have "mapCreated s \<longrightarrow> invocations (advanceTo t (effect c (cleanup s))) = invocations s"
    by (simp add: advanceTo_unarmed cleanup_def effect_def)
  ultimately show ?thesis
    using mount_invocations[of r n] by (simp add: REFRESH_INTERVAL_def)
qed

theorem scheduler_cadence_witness:
  "invocations (advanceTo 1800000 (effect True unmounted)) = [0, 600000, 1200000, 1800000]
   \<and> invocations (advanceTo 6000000 (cleanup (advanceTo 1800000 (effect True unmounted))))
       = [0, 600000, 1200000, 1800000]"
proof -
  have r: "(0::nat) < REFRESH_INTERVAL" by (simp add: REFRESH_INTERVAL_def)
  have e: "[0..<4] = [0, 1, 2, 3::nat]" by (simp add: upt_rec)
  from scheduler_cadence[of 0 3 6000000 "advanceTo 1800000 (effect True unmounted)"] r
  have "invocations (advanceTo (3 * REFRESH_INTERVAL + 0) (effect True unmounted))
          = map (\<lambda>k. k * REFRESH_INTERVAL) [0..<Suc 3]"
    and "invocations (advanceTo 6000000 (cleanup (advanceTo 1800000 (effect True unmounted))))
          = invocations (advanceTo 1800000 (effect True unmounted))"
    by blast+
  then show ?thesis by (simp add: e REFRESH_INTERVAL_def)
qed


end
